theory Spec2Isabelle
  imports Complex_Main
begin

section \<open>The barrier-method notebook (lab14) as HOL functions\<close>

text \<open>
  The notebook \<^verbatim>\<open>src/lab14/barrier-method.ipynb\<close> defines three Python functions:
  \<^verbatim>\<open>backtracking_line_search\<close>, \<^verbatim>\<open>newtons_method\<close> and \<^verbatim>\<open>barrier_method\<close>.
  They are embedded here function by function.

  Conventions of the embedding.
  \<^item> A Python or NumPy scalar is a \<^typ>\<open>real\<close>. Inside the arrays (the objective, its
    derivatives, the Newton step, the line search) the arithmetic is that of the reals:
    rounding, overflow, infinities and NaN of binary floating point are not part of the
    model there. Where NumPy divides by zero or takes the logarithm of a non-positive
    number (it warns and continues with inf or nan), the model has HOL's value of
    \<open>x / 0\<close> and of \<open>ln x\<close>; this only happens at points outside the barrier's domain.
  \<^item> The two scalar operations of the outer loop, \<^verbatim>\<open>m / t\<close> and \<^verbatim>\<open>t *= mu\<close>, decide how many
    stages a run has. They are modelled with their rounding: the exact quotient and the
    exact product, each followed by the rounding of the scalars that the caller passes
    (a parameter \<open>fl\<close> of the outer loop).
  \<^item> A one-dimensional array is a list of reals, a two-dimensional array a record of its
    column count and its rows. The elementwise operations are written with \<open>zip\<close>; they
    agree with NumPy when the shapes agree (NumPy raises or broadcasts otherwise).
  \<^item> A call that never returns has the value \<open>None\<close>; a call that raises has the value
    \<open>Some (Inl e)\<close>; a call that returns \<open>v\<close> has the value \<open>Some (Inr v)\<close>.
  \<^item> \<^verbatim>\<open>np.linalg.solve\<close> is library code: the solver is a parameter \<open>solve\<close> of the model,
    returning the solution or an error.
\<close>

subsection \<open>Arrays\<close>

type_synonym vec = "real list"

record mat =
  ncols :: nat
  rows :: "real list list"

definition nrows :: "mat \<Rightarrow> nat" where
  "nrows A = length (rows A)"

text \<open>\<^verbatim>\<open>x + y\<close>, \<^verbatim>\<open>x - y\<close>, \<^verbatim>\<open>t * x\<close>, \<^verbatim>\<open>-x\<close> on one-dimensional arrays.\<close>

definition vec_add :: "vec \<Rightarrow> vec \<Rightarrow> vec" where
  "vec_add x y = map2 (+) x y"

definition vec_sub :: "vec \<Rightarrow> vec \<Rightarrow> vec" where
  "vec_sub x y = map2 (-) x y"

definition scale :: "real \<Rightarrow> vec \<Rightarrow> vec" where
  "scale t x = map ((*) t) x"

definition vec_neg :: "vec \<Rightarrow> vec" where
  "vec_neg x = map uminus x"

text \<open>\<^verbatim>\<open>np.dot(x, y)\<close> and \<^verbatim>\<open>x @ y\<close> on one-dimensional arrays.\<close>

definition dot :: "vec \<Rightarrow> vec \<Rightarrow> real" where
  "dot x y = sum_list (map2 (*) x y)"

text \<open>\<^verbatim>\<open>A @ x\<close> for a matrix and a vector.\<close>

definition mat_vec :: "mat \<Rightarrow> vec \<Rightarrow> vec" where
  "mat_vec A x = map (\<lambda>r. dot r x) (rows A)"

text \<open>\<^verbatim>\<open>A.T\<close>.\<close>

definition transpose_mat :: "mat \<Rightarrow> mat" where
  "transpose_mat A =
     \<lparr>ncols = nrows A, rows = map (\<lambda>j. map (\<lambda>r. r ! j) (rows A)) [0..<ncols A]\<rparr>"

text \<open>\<^verbatim>\<open>M / v\<close>: NumPy broadcasts the vector along the last axis, so every row of \<open>M\<close> is
  divided elementwise by \<open>v\<close>.\<close>

definition div_rows :: "mat \<Rightarrow> vec \<Rightarrow> mat" where
  "div_rows M v = \<lparr>ncols = ncols M, rows = map (\<lambda>r. map2 (/) r v) (rows M)\<rparr>"

text \<open>\<^verbatim>\<open>np.sum(M, axis=1)\<close>: the sum of every row.\<close>

definition sum_axis1 :: "mat \<Rightarrow> vec" where
  "sum_axis1 M = map sum_list (rows M)"

text \<open>\<^verbatim>\<open>M @ N\<close> for two matrices.\<close>

definition mat_mul :: "mat \<Rightarrow> mat \<Rightarrow> mat" where
  "mat_mul M N =
     \<lparr>ncols = ncols N, rows = map (\<lambda>r. map (\<lambda>col. dot r col) (rows (transpose_mat N))) (rows M)\<rparr>"

subsection \<open>Exceptions and the solver\<close>

datatype error = LinAlgError | ValueError | IndexError | ZeroDivisionError

type_synonym solver = "mat \<Rightarrow> vec \<Rightarrow> error + vec"

text \<open>
  For the runs on concrete inputs a solver is needed. \<open>cramer_solve\<close> solves the system
  exactly by Cramer's rule (the determinant by expansion along the first row). Like
  \<^verbatim>\<open>np.linalg.solve\<close> it raises \<^verbatim>\<open>LinAlgError\<close> on a matrix that is not square or is
  singular, and \<^verbatim>\<open>ValueError\<close> on a right-hand side of another length.
\<close>

definition del_col :: "nat \<Rightarrow> real list \<Rightarrow> real list" where
  "del_col j r = take j r @ drop (Suc j) r"

function det :: "real list list \<Rightarrow> real" where
  "det [] = 1"
| "det (r # rs) = (\<Sum>j\<leftarrow>[0..<length r]. (- 1) ^ j * r ! j * det (map (del_col j) rs))"
  by pat_completeness auto
termination
  by (relation "measure length") auto

definition cramer_solve :: solver where
  "cramer_solve H g =
     (if ncols H \<noteq> nrows H \<or> (\<exists>r \<in> set (rows H). length r \<noteq> nrows H) \<or> det (rows H) = 0
      then Inl LinAlgError
      else if length g \<noteq> nrows H then Inl ValueError
      else Inr (map (\<lambda>j. det (map2 (\<lambda>r v. r[j := v]) (rows H) g) / det (rows H))
                  [0..<nrows H]))"


subsection \<open>\<^verbatim>\<open>backtracking_line_search\<close>\<close>

text \<open>
  \<^verbatim>\<open>
  t = 1
  while not in_domain_of_f(x + t*dx):
      t *= beta
  while f(x + t * dx) > f(x) + alpha * t * np.dot(df(x), dx):
      t *= beta
  return t
  \<close>
  The second loop carries, next to \<open>t\<close>, the list of the points at which \<open>f\<close> has been
  called so far (each test calls \<open>f\<close> at \<open>x + t*dx\<close>, then at \<open>x\<close>). This list is a
  record of the calls only; nothing reads it. In the loops the current point \<open>x\<close> is
  written \<open>xk\<close>.
\<close>

partial_function (option) domain_loop ::
  "(vec \<Rightarrow> bool) \<Rightarrow> vec \<Rightarrow> vec \<Rightarrow> real \<Rightarrow> real \<Rightarrow> real option" where
  "domain_loop in_domain_of_f xk dx beta t =
     (if \<not> in_domain_of_f (vec_add xk (scale t dx))
      then domain_loop in_domain_of_f xk dx beta (t * beta)
      else Some t)"

partial_function (option) armijo_loop ::
  "(vec \<Rightarrow> real) \<Rightarrow> (vec \<Rightarrow> vec) \<Rightarrow> vec \<Rightarrow> vec \<Rightarrow> real \<Rightarrow> real \<Rightarrow> real \<Rightarrow> vec list
     \<Rightarrow> (real \<times> vec list) option" where
  "armijo_loop f df xk dx alpha beta t calls =
     (if f (vec_add xk (scale t dx)) > f xk + alpha * t * dot (df xk) dx
      then armijo_loop f df xk dx alpha beta (t * beta) (calls @ [vec_add xk (scale t dx), xk])
      else Some (t, calls @ [vec_add xk (scale t dx), xk]))"

definition backtracking_line_search ::
  "(vec \<Rightarrow> real) \<Rightarrow> (vec \<Rightarrow> bool) \<Rightarrow> (vec \<Rightarrow> vec) \<Rightarrow> vec \<Rightarrow> vec \<Rightarrow> real \<Rightarrow> real
     \<Rightarrow> (real \<times> vec list) option" where
  "backtracking_line_search f in_domain_of_f df x dx alpha beta =
     (case domain_loop in_domain_of_f x dx beta 1 of
        None \<Rightarrow> None
      | Some t \<Rightarrow> armijo_loop f df x dx alpha beta t [])"

subsection \<open>\<^verbatim>\<open>newtons_method\<close>\<close>

text \<open>
  \<^verbatim>\<open>
  steps = [x.copy()]
  while True:
      dx = -np.linalg.solve(ddf(x), df(x))
      lambda_sq = -df(x) @ dx
      if lambda_sq/2 <= eps:
          break
      t = backtracking_line_search(f, in_domain_of_f, df, x, dx)
      x += t * dx
      steps.append(x.copy())
  return x, steps
  \<close>
  The line search is called with its default \<open>alpha = 0.1\<close> and \<open>beta = 0.8\<close>. The optional
  argument \<open>eps\<close> is an \<open>option\<close>: \<open>None\<close> stands for a call that leaves it out.
\<close>

partial_function (option) newton_loop ::
  "solver \<Rightarrow> (vec \<Rightarrow> real) \<Rightarrow> (vec \<Rightarrow> bool) \<Rightarrow> (vec \<Rightarrow> vec) \<Rightarrow> (vec \<Rightarrow> mat) \<Rightarrow> real
     \<Rightarrow> vec \<Rightarrow> vec list \<Rightarrow> (error + vec \<times> vec list) option" where
  "newton_loop solve f in_domain_of_f df ddf eps xk steps =
     (case solve (ddf xk) (df xk) of
        Inl e \<Rightarrow> Some (Inl e)
      | Inr y \<Rightarrow>
          (let dx = vec_neg y;
               lambda_sq = dot (vec_neg (df xk)) dx
           in if lambda_sq / 2 \<le> eps then Some (Inr (xk, steps))
              else (case backtracking_line_search f in_domain_of_f df xk dx (1 / 10) (8 / 10) of
                      None \<Rightarrow> None
                    | Some (t, calls) \<Rightarrow>
                        newton_loop solve f in_domain_of_f df ddf eps
                          (vec_add xk (scale t dx)) (steps @ [vec_add xk (scale t dx)]))))"

definition newtons_method ::
  "solver \<Rightarrow> (vec \<Rightarrow> real) \<Rightarrow> (vec \<Rightarrow> bool) \<Rightarrow> (vec \<Rightarrow> vec) \<Rightarrow> (vec \<Rightarrow> mat) \<Rightarrow> vec
     \<Rightarrow> real option \<Rightarrow> (error + vec \<times> vec list) option" where
  "newtons_method solve f in_domain_of_f df ddf x eps =
     newton_loop solve f in_domain_of_f df ddf
       (case eps of None \<Rightarrow> 1 / 10 ^ 4 | Some e \<Rightarrow> e) x [x]"

subsection \<open>\<^verbatim>\<open>barrier_method\<close>\<close>

text \<open>
  The four closures of a barrier stage:
  \<^verbatim>\<open>
  f = lambda x: t * c @ x - np.sum(np.log(b - A @ x))
  in_domain_of_f = lambda x: all(b - A @ x > 0)
  df = lambda x: t * c + np.sum(A.T / (b - A @ x), axis=1)
  ddf = lambda x: (A.T / (b - A @ x)**2) @ A
  \<close>
  (\<^verbatim>\<open>t * c @ x\<close> parses as \<^verbatim>\<open>(t * c) @ x\<close>).
\<close>

definition barrier_f :: "real \<Rightarrow> vec \<Rightarrow> mat \<Rightarrow> vec \<Rightarrow> vec \<Rightarrow> real" where
  "barrier_f t c A b x = dot (scale t c) x - sum_list (map ln (vec_sub b (mat_vec A x)))"

definition barrier_in_domain :: "mat \<Rightarrow> vec \<Rightarrow> vec \<Rightarrow> bool" where
  "barrier_in_domain A b x = list_all (\<lambda>v. v > 0) (vec_sub b (mat_vec A x))"

definition barrier_df :: "real \<Rightarrow> vec \<Rightarrow> mat \<Rightarrow> vec \<Rightarrow> vec \<Rightarrow> vec" where
  "barrier_df t c A b x =
     vec_add (scale t c) (sum_axis1 (div_rows (transpose_mat A) (vec_sub b (mat_vec A x))))"

definition barrier_ddf :: "mat \<Rightarrow> vec \<Rightarrow> vec \<Rightarrow> mat" where
  "barrier_ddf A b x =
     mat_mul (div_rows (transpose_mat A) (map (\<lambda>v. v ^ 2) (vec_sub b (mat_vec A x)))) A"

text \<open>
  The scalars of the outer loop. \<^verbatim>\<open>m\<close> is a Python int; \<^verbatim>\<open>t0\<close> and \<^verbatim>\<open>mu\<close> are whatever the
  caller passes, and Python takes \<^verbatim>\<open>/\<close> and \<^verbatim>\<open>*\<close> from them. With Python floats or NumPy
  float64 the quotient \<^verbatim>\<open>m / t\<close> and the product \<^verbatim>\<open>t * mu\<close> are both rounded to the nearest
  double. With Python ints (the defaults \<^verbatim>\<open>t0=1\<close>, \<^verbatim>\<open>mu=20\<close>) the product is exact, and the
  quotient of two ints is again the double nearest to the exact quotient. The record
  \<open>fl\<close> holds the two roundings: \<open>rnd_div fl q\<close> is what the machine returns where the exact
  quotient is \<open>q\<close>, \<open>rnd_mul fl p\<close> what it returns where the exact product is \<open>p\<close>.
  The reals \<open>eps\<close>, \<open>mu\<close>, \<open>t0\<close> of the model are the exact values of the Python scalars: the
  float written \<^verbatim>\<open>0.1\<close>, for one, is the real \<open>3602879701896397 / 2 ^ 55\<close>.
\<close>

record rounding =
  rnd_div :: "real \<Rightarrow> real"
  rnd_mul :: "real \<Rightarrow> real"

text \<open>
  The double nearest to a real, as IEEE 754 rounds to nearest with ties to even: the real
  is written as a multiple of the spacing \<open>2 ^ e\<close> of the doubles around it (53 significant
  bits, or the spacing \<open>2 ^ - 1074\<close> of the subnormal numbers), and the multiplier is rounded
  to the nearest integer, to the even one at a tie. A real beyond the largest double,
  which the machine rounds to inf, is outside the range of this definition.
\<close>

definition round_half_even :: "real \<Rightarrow> int" where
  "round_half_even r =
     (let n = \<lfloor>r\<rfloor>; d = r - of_int n
      in if d < 1 / 2 then n else if 1 / 2 < d then n + 1 else if even n then n else n + 1)"

definition binary64 :: "real \<Rightarrow> real" where
  "binary64 r =
     (if r = 0 then 0
      else let e = max \<lfloor>log 2 \<bar>r\<bar>\<rfloor> (- 1022) - 52
           in of_int (round_half_even (r / 2 powi e)) * 2 powi e)"

text \<open>Float scalars round the quotient and the product; int scalars only the quotient.\<close>

definition float_scalars :: rounding where
  "float_scalars = \<lparr>rnd_div = binary64, rnd_mul = binary64\<rparr>"

definition int_scalars :: rounding where
  "int_scalars = \<lparr>rnd_div = binary64, rnd_mul = (\<lambda>p. p)\<rparr>"

text \<open>
  The loop test
  \<^verbatim>\<open>(phase_one and x[-1]>0) or (not phase_one and m / t >= eps)\<close>.
  \<^verbatim>\<open>x[-1]\<close> raises on an empty array, \<^verbatim>\<open>m / t\<close> on \<open>t = 0\<close>.
\<close>

definition loop_test ::
  "rounding \<Rightarrow> bool \<Rightarrow> nat \<Rightarrow> real \<Rightarrow> real \<Rightarrow> vec \<Rightarrow> error + bool" where
  "loop_test fl phase_one m eps t x =
     (if phase_one then (if x = [] then Inl IndexError else Inr (last x > 0))
      else if t = 0 then Inl ZeroDivisionError
      else Inr (rnd_div fl (real m / t) \<ge> eps))"

text \<open>
  The loop body, one barrier stage, on the loop's variables \<open>(t, x, steps, newt_steps)\<close>:
  \<^verbatim>\<open>
  x, newt_steps_here = newtons_method(f, in_domain_of_f, df, ddf, x)
  steps.append(x.copy())
  newt_steps.append(newt_steps_here)
  t *= mu
  \<close>
\<close>

type_synonym barrier_state = "real \<times> vec \<times> vec list \<times> vec list list"

definition barrier_stage ::
  "rounding \<Rightarrow> solver \<Rightarrow> vec \<Rightarrow> mat \<Rightarrow> vec \<Rightarrow> real \<Rightarrow> barrier_state \<Rightarrow> (error + barrier_state) option" where
  "barrier_stage fl solve c A b mu s =
     (case s of (t, x, steps, newt_steps) \<Rightarrow>
        (case newtons_method solve (barrier_f t c A b) (barrier_in_domain A b)
                (barrier_df t c A b) (barrier_ddf A b) x None of
           None \<Rightarrow> None
         | Some (Inl e) \<Rightarrow> Some (Inl e)
         | Some (Inr (x', newt_steps_here)) \<Rightarrow>
             Some (Inr (rnd_mul fl (t * mu), x', steps @ [x'], newt_steps @ [newt_steps_here]))))"

partial_function (option) barrier_loop ::
  "rounding \<Rightarrow> solver \<Rightarrow> vec \<Rightarrow> mat \<Rightarrow> vec \<Rightarrow> real \<Rightarrow> real \<Rightarrow> bool \<Rightarrow> barrier_state
     \<Rightarrow> (error + vec \<times> vec list \<times> vec list list) option" where
  "barrier_loop fl solve c A b eps mu phase_one s =
     (case loop_test fl phase_one (nrows A) eps (fst s) (fst (snd s)) of
        Inl e \<Rightarrow> Some (Inl e)
      | Inr go \<Rightarrow>
          if go
          then (case barrier_stage fl solve c A b mu s of
                  None \<Rightarrow> None
                | Some (Inl e) \<Rightarrow> Some (Inl e)
                | Some (Inr s') \<Rightarrow> barrier_loop fl solve c A b eps mu phase_one s')
          else Some (Inr (snd s)))"

text \<open>
  \<open>barrier_stages k\<close> runs the loop body \<open>k\<close> times in a row, without the loop test: the
  yardstick for counting the stages that a run of the loop performs.
\<close>

fun barrier_stages ::
  "rounding \<Rightarrow> solver \<Rightarrow> vec \<Rightarrow> mat \<Rightarrow> vec \<Rightarrow> real \<Rightarrow> nat \<Rightarrow> barrier_state
     \<Rightarrow> (error + barrier_state) option" where
  "barrier_stages fl solve c A b mu 0 s = Some (Inr s)"
| "barrier_stages fl solve c A b mu (Suc k) s =
     (case barrier_stage fl solve c A b mu s of
        None \<Rightarrow> None
      | Some (Inl e) \<Rightarrow> Some (Inl e)
      | Some (Inr s') \<Rightarrow> barrier_stages fl solve c A b mu k s')"

text \<open>
  \<open>stage_t fl mu t k\<close> is the value of the variable \<^verbatim>\<open>t\<close> after \<open>k\<close> turns of \<^verbatim>\<open>t *= mu\<close> from \<open>t\<close>.
\<close>

fun stage_t :: "rounding \<Rightarrow> real \<Rightarrow> real \<Rightarrow> nat \<Rightarrow> real" where
  "stage_t fl mu t 0 = t"
| "stage_t fl mu t (Suc k) = stage_t fl mu (rnd_mul fl (t * mu)) k"

text \<open>
  \<^verbatim>\<open>
  m, n = A.shape
  x = x_0.copy()
  steps = [x.copy()]
  newt_steps = []
  t = t0
  while ...
  return x, steps, newt_steps
  \<close>
\<close>

definition barrier_method ::
  "rounding \<Rightarrow> solver \<Rightarrow> vec \<Rightarrow> mat \<Rightarrow> vec \<Rightarrow> vec \<Rightarrow> real \<Rightarrow> real \<Rightarrow> real \<Rightarrow> bool
     \<Rightarrow> (error + vec \<times> vec list \<times> vec list list) option" where
  "barrier_method fl solve c A b x_0 eps mu t0 phase_one =
     barrier_loop fl solve c A b eps mu phase_one (t0, x_0, [x_0], [])"

subsection \<open>The invariant of the outer loop\<close>

text \<open>The current point, every point of the outer trace and every point of every inner
  trace satisfies \<open>Q\<close> and has \<open>n\<close> entries. (\<open>Q\<close> is strict feasibility, or nothing.)\<close>

definition stage_inv :: "(vec \<Rightarrow> bool) \<Rightarrow> nat \<Rightarrow> vec \<Rightarrow> vec list \<Rightarrow> vec list list \<Rightarrow> bool" where
  "stage_inv Q n x steps newt_steps \<longleftrightarrow>
     Q x \<and> length x = n \<and>
     (\<forall>p \<in> set steps. Q p \<and> length p = n) \<and>
     (\<forall>tr \<in> set newt_steps. \<forall>p \<in> set tr. Q p \<and> length p = n)"

subsection \<open>The formulas of the specification\<close>

text \<open>
  The barrier objective, its domain, gradient and Hessian as the specification writes
  them, entry by entry, with \<open>m = nrows A\<close>, \<open>n = ncols A\<close> and the slack
  \<open>b\<^sub>i - A\<^sub>i \<cdot> x\<close> of constraint \<open>i\<close>. They are compared with the closures of
  \<^verbatim>\<open>barrier_method\<close> above.
\<close>

definition slack :: "mat \<Rightarrow> vec \<Rightarrow> vec \<Rightarrow> nat \<Rightarrow> real" where
  "slack A b x i = b ! i - (\<Sum>j<ncols A. rows A ! i ! j * x ! j)"

definition spec_f :: "real \<Rightarrow> vec \<Rightarrow> mat \<Rightarrow> vec \<Rightarrow> vec \<Rightarrow> real" where
  "spec_f t c A b x = t * (\<Sum>j<ncols A. c ! j * x ! j) - (\<Sum>i<nrows A. ln (slack A b x i))"

definition spec_in_domain :: "mat \<Rightarrow> vec \<Rightarrow> vec \<Rightarrow> bool" where
  "spec_in_domain A b x \<longleftrightarrow> (\<forall>i<nrows A. 0 < slack A b x i)"

definition spec_gradient :: "real \<Rightarrow> vec \<Rightarrow> mat \<Rightarrow> vec \<Rightarrow> vec \<Rightarrow> vec" where
  "spec_gradient t c A b x =
     map (\<lambda>j. t * c ! j + (\<Sum>i<nrows A. rows A ! i ! j / slack A b x i)) [0..<ncols A]"

definition spec_hessian :: "mat \<Rightarrow> vec \<Rightarrow> vec \<Rightarrow> mat" where
  "spec_hessian A b x =
     \<lparr>ncols = ncols A,
      rows = map (\<lambda>j. map (\<lambda>k. \<Sum>i<nrows A. rows A ! i ! j * rows A ! i ! k / (slack A b x i)\<^sup>2)
                           [0..<ncols A]) [0..<ncols A]\<rparr>"

text \<open>The diagonal matrix \<open>diag d\<close>.\<close>

definition diag_mat :: "vec \<Rightarrow> mat" where
  "diag_mat d =
     \<lparr>ncols = length d,
      rows = map (\<lambda>i. map (\<lambda>l. if l = i then d ! i else 0) [0..<length d]) [0..<length d]\<rparr>"

subsection \<open>The same functions on a store of arrays\<close>

text \<open>
  NumPy arrays are mutable objects and \<^verbatim>\<open>x += t * dx\<close> updates one in place. To follow
  which arrays a call can change, the three functions are embedded a second time over an
  explicit store: a list of arrays, an address being an index into it. The arrays that
  live across statements are in the store: the caller's \<open>c\<close>, \<open>A\<close>, \<open>b\<close>, \<open>x_0\<close>, the
  iterate \<open>x\<close>, and every snapshot appended to a trace (a trace is a Python list of
  references, here a list of addresses). The values of arithmetic expressions
  (\<^verbatim>\<open>t * dx\<close>, \<^verbatim>\<open>x + t * dx\<close>, \<^verbatim>\<open>-np.linalg.solve(...)\<close>) are fresh arrays that nothing
  updates, so they stay values. \<^verbatim>\<open>x.copy()\<close> allocates a new array; \<^verbatim>\<open>x += v\<close>
  overwrites the array at the address of \<open>x\<close>. The closures of \<^verbatim>\<open>barrier_method\<close> read \<open>c\<close>,
  \<open>A\<close> and \<open>b\<close> from the store whenever they are called.
\<close>

datatype ndarray = Vec (vec_of: vec) | Mat (mat_of: mat)

type_synonym heap = "ndarray list"

type_synonym addr = nat

definition deref :: "heap \<Rightarrow> addr \<Rightarrow> vec" where
  "deref h a = vec_of (h ! a)"

text \<open>\<^verbatim>\<open>x.copy()\<close>: the new store and the address of the copy.\<close>

definition copy_array :: "heap \<Rightarrow> addr \<Rightarrow> heap \<times> addr" where
  "copy_array h a = (h @ [h ! a], length h)"

text \<open>\<^verbatim>\<open>x += v\<close>.\<close>

definition iadd :: "heap \<Rightarrow> addr \<Rightarrow> vec \<Rightarrow> heap" where
  "iadd h a v = h[a := Vec (vec_add (deref h a) v)]"

text \<open>\<^verbatim>\<open>newtons_method\<close>: \<open>xa\<close> is the address of the argument \<open>x\<close>; the function returns
  the final store, the address it returns as \<open>x\<close> (the same object) and the trace.\<close>

partial_function (option) newton_loop_h ::
  "solver \<Rightarrow> (heap \<Rightarrow> vec \<Rightarrow> real) \<Rightarrow> (heap \<Rightarrow> vec \<Rightarrow> bool) \<Rightarrow> (heap \<Rightarrow> vec \<Rightarrow> vec)
     \<Rightarrow> (heap \<Rightarrow> vec \<Rightarrow> mat) \<Rightarrow> real \<Rightarrow> addr \<Rightarrow> heap \<Rightarrow> addr list
     \<Rightarrow> (error + heap \<times> addr \<times> addr list) option" where
  "newton_loop_h solve f in_domain_of_f df ddf eps xa h steps =
     (case solve (ddf h (deref h xa)) (df h (deref h xa)) of
        Inl e \<Rightarrow> Some (Inl e)
      | Inr y \<Rightarrow>
          (let dx = vec_neg y;
               lambda_sq = dot (vec_neg (df h (deref h xa))) dx
           in if lambda_sq / 2 \<le> eps then Some (Inr (h, xa, steps))
              else (case backtracking_line_search (f h) (in_domain_of_f h) (df h) (deref h xa) dx
                          (1 / 10) (8 / 10) of
                      None \<Rightarrow> None
                    | Some (t, calls) \<Rightarrow>
                        newton_loop_h solve f in_domain_of_f df ddf eps xa
                          (fst (copy_array (iadd h xa (scale t dx)) xa))
                          (steps @ [snd (copy_array (iadd h xa (scale t dx)) xa)]))))"

definition newtons_method_h ::
  "solver \<Rightarrow> (heap \<Rightarrow> vec \<Rightarrow> real) \<Rightarrow> (heap \<Rightarrow> vec \<Rightarrow> bool) \<Rightarrow> (heap \<Rightarrow> vec \<Rightarrow> vec)
     \<Rightarrow> (heap \<Rightarrow> vec \<Rightarrow> mat) \<Rightarrow> addr \<Rightarrow> heap \<Rightarrow> real option
     \<Rightarrow> (error + heap \<times> addr \<times> addr list) option" where
  "newtons_method_h solve f in_domain_of_f df ddf xa h eps =
     newton_loop_h solve f in_domain_of_f df ddf
       (case eps of None \<Rightarrow> 1 / 10 ^ 4 | Some e \<Rightarrow> e) xa
       (fst (copy_array h xa)) [snd (copy_array h xa)]"

text \<open>\<^verbatim>\<open>barrier_method\<close>: \<open>ca\<close>, \<open>Aa\<close>, \<open>ba\<close> are the addresses of \<open>c\<close>, \<open>A\<close>, \<open>b\<close>; the loop's
  variables are the store, \<open>t\<close>, the address of \<open>x\<close> and the two traces.\<close>

type_synonym barrier_state_h = "heap \<times> real \<times> addr \<times> addr list \<times> addr list list"

definition barrier_stage_h ::
  "rounding \<Rightarrow> solver \<Rightarrow> addr \<Rightarrow> addr \<Rightarrow> addr \<Rightarrow> real \<Rightarrow> barrier_state_h
     \<Rightarrow> (error + barrier_state_h) option" where
  "barrier_stage_h fl solve ca Aa ba mu s =
     (case s of (h, t, xa, steps, newt_steps) \<Rightarrow>
        (case newtons_method_h solve
                (\<lambda>g. barrier_f t (deref g ca) (mat_of (g ! Aa)) (deref g ba))
                (\<lambda>g. barrier_in_domain (mat_of (g ! Aa)) (deref g ba))
                (\<lambda>g. barrier_df t (deref g ca) (mat_of (g ! Aa)) (deref g ba))
                (\<lambda>g. barrier_ddf (mat_of (g ! Aa)) (deref g ba)) xa h None of
           None \<Rightarrow> None
         | Some (Inl e) \<Rightarrow> Some (Inl e)
         | Some (Inr (h', xa', newt_steps_here)) \<Rightarrow>
             Some (Inr (fst (copy_array h' xa'), rnd_mul fl (t * mu), xa',
                        steps @ [snd (copy_array h' xa')], newt_steps @ [newt_steps_here]))))"

partial_function (option) barrier_loop_h ::
  "rounding \<Rightarrow> solver \<Rightarrow> addr \<Rightarrow> addr \<Rightarrow> addr \<Rightarrow> nat \<Rightarrow> real \<Rightarrow> real \<Rightarrow> bool \<Rightarrow> barrier_state_h
     \<Rightarrow> (error + heap \<times> addr \<times> addr list \<times> addr list list) option" where
  "barrier_loop_h fl solve ca Aa ba m eps mu phase_one s =
     (case loop_test fl phase_one m eps (fst (snd s)) (deref (fst s) (fst (snd (snd s)))) of
        Inl e \<Rightarrow> Some (Inl e)
      | Inr go \<Rightarrow>
          if go
          then (case barrier_stage_h fl solve ca Aa ba mu s of
                  None \<Rightarrow> None
                | Some (Inl e) \<Rightarrow> Some (Inl e)
                | Some (Inr s') \<Rightarrow> barrier_loop_h fl solve ca Aa ba m eps mu phase_one s')
          else Some (Inr (fst s, snd (snd s))))"

definition barrier_method_h ::
  "rounding \<Rightarrow> solver \<Rightarrow> heap \<Rightarrow> addr \<Rightarrow> addr \<Rightarrow> addr \<Rightarrow> addr \<Rightarrow> real \<Rightarrow> real \<Rightarrow> real \<Rightarrow> bool
     \<Rightarrow> (error + heap \<times> addr \<times> addr list \<times> addr list list) option" where
  "barrier_method_h fl solve h ca Aa ba x0a eps mu t0 phase_one =
     barrier_loop_h fl solve ca Aa ba (nrows (mat_of (h ! Aa))) eps mu phase_one
       (fst (copy_array (fst (copy_array h x0a)) (snd (copy_array h x0a))), t0,
        snd (copy_array h x0a),
        [snd (copy_array (fst (copy_array h x0a)) (snd (copy_array h x0a)))], [])"

text \<open>What the caller of a run on the store sees: the values behind the returned
  addresses, read in the final store.\<close>

definition view :: "heap \<times> addr \<times> addr list \<times> addr list list \<Rightarrow> vec \<times> vec list \<times> vec list list" where
  "view r = (case r of (h, xa, steps, newt_steps) \<Rightarrow>
     (deref h xa, map (deref h) steps, map (map (deref h)) newt_steps))"

text \<open>\<open>unchanged_except h xa h'\<close>: the store \<open>h'\<close> has every array of \<open>h\<close>, with the same
  contents, except possibly the array at \<open>xa\<close>. \<open>snapshots L h xa as\<close>: the addresses \<open>as\<close> are
  distinct arrays of the store \<open>h\<close>, allocated at or after \<open>L\<close>, and none is the array at
  \<open>xa\<close>.\<close>

definition unchanged_except :: "heap \<Rightarrow> addr \<Rightarrow> heap \<Rightarrow> bool" where
  "unchanged_except h xa h' \<longleftrightarrow> length h \<le> length h' \<and> (\<forall>a<length h. a \<noteq> xa \<longrightarrow> h' ! a = h ! a)"

definition snapshots :: "nat \<Rightarrow> heap \<Rightarrow> addr \<Rightarrow> addr list \<Rightarrow> bool" where
  "snapshots L h xa as \<longleftrightarrow> (\<forall>s \<in> set as. L \<le> s \<and> s < length h \<and> s \<noteq> xa) \<and> distinct as"

subsection \<open>Example data\<close>

text \<open>The interval \<open>[-1, 1]\<close>: the constraints \<open>x \<le> 1\<close> and \<open>-x \<le> 1\<close> (with \<open>b = [1, 1]\<close>).\<close>

definition interval_A :: mat where
  "interval_A = \<lparr>ncols = 1, rows = [[1], [- 1]]\<rparr>"

text \<open>The half-line \<open>x \<le> 0\<close> (with \<open>b = [0]\<close>).\<close>

definition halfline_A :: mat where
  "halfline_A = \<lparr>ncols = 1, rows = [[1]]\<rparr>"

text \<open>A store holding the half-line instance: \<open>c = [-1]\<close> at address 0, \<open>A\<close> at 1,
  \<open>b = [0]\<close> at 2 and \<open>x_0 = [-177/200]\<close> at 3; and the store after the run of
  \<^verbatim>\<open>barrier_method\<close> on it, which has five more arrays: the iterate \<open>x\<close> at 4, the two
  snapshots of the outer trace at 5 and 8, the two of the inner trace at 6 and 7.\<close>

definition halfline_store :: heap where
  "halfline_store = [Vec [- 1], Mat halfline_A, Vec [0], Vec [- 177 / 200]]"

definition halfline_store_final :: heap where
  "halfline_store_final =
     [Vec [- 1], Mat halfline_A, Vec [0], Vec [- 177 / 200],
      Vec [- 39471 / 40000], Vec [- 177 / 200],
      Vec [- 177 / 200], Vec [- 39471 / 40000], Vec [- 39471 / 40000]]"

text \<open>A one-dimensional objective \<open>v\<^sup>2 - v\<close> with its gradient, on a domain with a gap:
  the points \<open>v \<le> 0\<close> and the points \<open>v \<ge> 1\<close>; and the convex domain \<open>v < 1\<close>.\<close>

definition gap_f :: "vec \<Rightarrow> real" where
  "gap_f v = (hd v)\<^sup>2 - hd v"

definition gap_df :: "vec \<Rightarrow> vec" where
  "gap_df v = [2 * hd v - 1]"

definition gap_domain :: "vec \<Rightarrow> bool" where
  "gap_domain v \<longleftrightarrow> hd v \<le> 0 \<or> 1 \<le> hd v"

definition below_one :: "vec \<Rightarrow> bool" where
  "below_one v \<longleftrightarrow> hd v < 1"

text \<open>A concave one-dimensional objective \<open>v - v\<^sup>2 / 2\<close> with its gradient and its Hessian
  \<open>[[-1]]\<close>, and a linear one with the Hessian \<open>[[0]]\<close>; both are defined everywhere.\<close>

definition concave_f :: "vec \<Rightarrow> real" where
  "concave_f v = hd v - (hd v)\<^sup>2 / 2"

definition concave_df :: "vec \<Rightarrow> vec" where
  "concave_df v = [1 - hd v]"

definition concave_ddf :: "vec \<Rightarrow> mat" where
  "concave_ddf v = \<lparr>ncols = 1, rows = [[- 1]]\<rparr>"

definition linear_f :: "vec \<Rightarrow> real" where
  "linear_f v = hd v"

definition linear_df :: "vec \<Rightarrow> vec" where
  "linear_df v = [1]"

definition linear_ddf :: "vec \<Rightarrow> mat" where
  "linear_ddf v = \<lparr>ncols = 1, rows = [[0]]\<rparr>"

definition everywhere :: "vec \<Rightarrow> bool" where
  "everywhere v \<longleftrightarrow> True"

section \<open>Properties\<close>

subsection \<open>Arrays and the barrier's domain\<close>

lemma length_vec_add: "length (vec_add x y) = min (length x) (length y)"
  by (simp add: vec_add_def)

lemma length_scale: "length (scale t x) = length x"
  by (simp add: scale_def)

lemma length_vec_neg: "length (vec_neg x) = length x"
  by (simp add: vec_neg_def)

lemma dot_step: "length x = length d \<Longrightarrow> dot r (vec_add x (scale s d)) = dot r x + s * dot r d"
proof (induction x d arbitrary: r rule: list_induct2)
  case Nil
  then show ?case by (simp add: dot_def vec_add_def scale_def)
next
  case (Cons a x e d)
  show ?case
  proof (cases r)
    case Nil
    then show ?thesis by (simp add: dot_def)
  next
    case (Cons u r')
    have "dot r' (vec_add x (scale s d)) = dot r' x + s * dot r' d" by (rule Cons.IH)
    then show ?thesis using Cons
      by (simp add: dot_def vec_add_def scale_def algebra_simps)
  qed
qed

lemma slack_segment:
  fixes r0 :: real
  assumes "0 < r0" "0 < r0 - t * k" "0 \<le> s" "s \<le> t"
  shows "0 < r0 - s * k"
proof (cases "0 \<le> k")
  case True
  then have "s * k \<le> t * k" using assms(4) by (rule mult_right_mono[rotated])
  then show ?thesis using assms(2) by linarith
next
  case False
  then have "s * k \<le> 0" using assms(3) by (simp add: mult_nonneg_nonpos)
  then show ?thesis using assms(1) by linarith
qed

lemma in_domain_nth:
  "barrier_in_domain A b x \<longleftrightarrow>
     (\<forall>i < min (length b) (nrows A). 0 < b ! i - dot (rows A ! i) x)"
  by (simp add: barrier_in_domain_def list_all_length vec_sub_def mat_vec_def nrows_def)

lemma in_domain_segment:
  assumes "barrier_in_domain A b x" "barrier_in_domain A b (vec_add x (scale t d))"
    "0 \<le> s" "s \<le> t" "length x = length d"
  shows "barrier_in_domain A b (vec_add x (scale s d))"
  unfolding in_domain_nth
proof (intro allI impI)
  fix i assume i: "i < min (length b) (nrows A)"
  have a: "0 < b ! i - dot (rows A ! i) x" using assms(1) i by (simp add: in_domain_nth)
  have "0 < b ! i - dot (rows A ! i) (vec_add x (scale t d))"
    using assms(2) i by (simp add: in_domain_nth)
  then have b: "0 < (b ! i - dot (rows A ! i) x) - t * dot (rows A ! i) d"
    by (simp add: dot_step[OF assms(5)] algebra_simps)
  have "0 < (b ! i - dot (rows A ! i) x) - s * dot (rows A ! i) d"
    by (rule slack_segment[OF a b assms(3,4)])
  then show "0 < b ! i - dot (rows A ! i) (vec_add x (scale s d))"
    by (simp add: dot_step[OF assms(5)] algebra_simps)
qed

subsection \<open>The line search\<close>

lemma domain_loop_result:
  assumes "domain_loop dm xk dx beta t = Some t'"
  shows "dm (vec_add xk (scale t' dx)) \<and> (0 \<le> beta \<longrightarrow> beta \<le> 1 \<longrightarrow> 0 \<le> t \<longrightarrow> 0 \<le> t' \<and> t' \<le> t)"
proof (rule domain_loop.raw_induct[OF _ assms, where P = "\<lambda>dm xk dx beta t t'.
     dm (vec_add xk (scale t' dx)) \<and> (0 \<le> beta \<longrightarrow> beta \<le> 1 \<longrightarrow> 0 \<le> t \<longrightarrow> 0 \<le> t' \<and> t' \<le> t)"])
  fix loop :: "(vec \<Rightarrow> bool) \<Rightarrow> vec \<Rightarrow> vec \<Rightarrow> real \<Rightarrow> real \<Rightarrow> real option"
  fix dm xk dx beta t t'
  assume IH: "\<And>dm xk dx beta t t'. loop dm xk dx beta t = Some t' \<Longrightarrow>
      dm (vec_add xk (scale t' dx)) \<and> (0 \<le> beta \<longrightarrow> beta \<le> 1 \<longrightarrow> 0 \<le> t \<longrightarrow> 0 \<le> t' \<and> t' \<le> t)"
    and body: "(if \<not> dm (vec_add xk (scale t dx)) then loop dm xk dx beta (t * beta) else Some t) = Some t'"
  show "dm (vec_add xk (scale t' dx)) \<and> (0 \<le> beta \<longrightarrow> beta \<le> 1 \<longrightarrow> 0 \<le> t \<longrightarrow> 0 \<le> t' \<and> t' \<le> t)"
  proof (cases "dm (vec_add xk (scale t dx))")
    case True
    then show ?thesis using body by auto
  next
    case False
    then have rec: "loop dm xk dx beta (t * beta) = Some t'" using body by simp
    from IH[OF rec] have d: "dm (vec_add xk (scale t' dx))"
      and b: "0 \<le> beta \<longrightarrow> beta \<le> 1 \<longrightarrow> 0 \<le> t * beta \<longrightarrow> 0 \<le> t' \<and> t' \<le> t * beta" by auto
    have "0 \<le> t' \<and> t' \<le> t" if h: "0 \<le> beta" "beta \<le> 1" "0 \<le> t"
    proof -
      have "0 \<le> t * beta" using h by simp
      moreover have "t * beta \<le> t" using h by (simp add: mult_left_le)
      ultimately show ?thesis using b h by auto
    qed
    then show ?thesis using d by blast
  qed
qed

lemma armijo_loop_result:
  assumes "armijo_loop f df xk dx alpha beta t calls = Some r"
  shows "0 \<le> beta \<longrightarrow> beta \<le> 1 \<longrightarrow> 0 \<le> t \<longrightarrow>
     0 \<le> fst r \<and> fst r \<le> t \<and>
     (\<forall>p \<in> set (snd r). p \<in> set calls \<or> p = xk \<or> (\<exists>s. 0 \<le> s \<and> s \<le> t \<and> p = vec_add xk (scale s dx)))"
proof (rule armijo_loop.raw_induct[OF _ assms, where P = "\<lambda>f df xk dx alpha beta t calls r.
     0 \<le> beta \<longrightarrow> beta \<le> 1 \<longrightarrow> 0 \<le> t \<longrightarrow>
     0 \<le> fst r \<and> fst r \<le> t \<and>
     (\<forall>p \<in> set (snd r). p \<in> set calls \<or> p = xk \<or> (\<exists>s. 0 \<le> s \<and> s \<le> t \<and> p = vec_add xk (scale s dx)))"])
  fix loop :: "(vec \<Rightarrow> real) \<Rightarrow> (vec \<Rightarrow> vec) \<Rightarrow> vec \<Rightarrow> vec \<Rightarrow> real \<Rightarrow> real \<Rightarrow> real \<Rightarrow> vec list
     \<Rightarrow> (real \<times> vec list) option"
  fix f df xk dx alpha beta t calls r
  assume IH: "\<And>f df xk dx alpha beta t calls r. loop f df xk dx alpha beta t calls = Some r \<Longrightarrow>
     0 \<le> beta \<longrightarrow> beta \<le> 1 \<longrightarrow> 0 \<le> t \<longrightarrow>
     0 \<le> fst r \<and> fst r \<le> t \<and>
     (\<forall>p \<in> set (snd r). p \<in> set calls \<or> p = xk \<or> (\<exists>s. 0 \<le> s \<and> s \<le> t \<and> p = vec_add xk (scale s dx)))"
    and body: "(if f (vec_add xk (scale t dx)) > f xk + alpha * t * dot (df xk) dx
      then loop f df xk dx alpha beta (t * beta) (calls @ [vec_add xk (scale t dx), xk])
      else Some (t, calls @ [vec_add xk (scale t dx), xk])) = Some r"
  show "0 \<le> beta \<longrightarrow> beta \<le> 1 \<longrightarrow> 0 \<le> t \<longrightarrow>
     0 \<le> fst r \<and> fst r \<le> t \<and>
     (\<forall>p \<in> set (snd r). p \<in> set calls \<or> p = xk \<or> (\<exists>s. 0 \<le> s \<and> s \<le> t \<and> p = vec_add xk (scale s dx)))"
  proof (intro impI)
    assume h: "0 \<le> beta" "beta \<le> 1" "0 \<le> t"
    show "0 \<le> fst r \<and> fst r \<le> t \<and>
     (\<forall>p \<in> set (snd r). p \<in> set calls \<or> p = xk \<or> (\<exists>s. 0 \<le> s \<and> s \<le> t \<and> p = vec_add xk (scale s dx)))"
    proof (cases "f (vec_add xk (scale t dx)) > f xk + alpha * t * dot (df xk) dx")
      case False
      then have "r = (t, calls @ [vec_add xk (scale t dx), xk])" using body by simp
      then show ?thesis using h by auto
    next
      case True
      then have rec: "loop f df xk dx alpha beta (t * beta) (calls @ [vec_add xk (scale t dx), xk]) = Some r"
        using body by simp
      have tb: "0 \<le> t * beta" "t * beta \<le> t" using h by (simp_all add: mult_left_le)
      from IH[OF rec] h tb have res: "0 \<le> fst r \<and> fst r \<le> t * beta \<and>
         (\<forall>p \<in> set (snd r). p \<in> set (calls @ [vec_add xk (scale t dx), xk]) \<or> p = xk \<or>
            (\<exists>s. 0 \<le> s \<and> s \<le> t * beta \<and> p = vec_add xk (scale s dx)))" by blast
      have "p \<in> set calls \<or> p = xk \<or> (\<exists>s. 0 \<le> s \<and> s \<le> t \<and> p = vec_add xk (scale s dx))"
        if "p \<in> set (snd r)" for p
      proof -
        from res that consider "p \<in> set calls" | "p = vec_add xk (scale t dx)" | "p = xk"
          | s where "0 \<le> s" "s \<le> t * beta" "p = vec_add xk (scale s dx)" by auto
        then show ?thesis
        proof cases
          case 2
          then show ?thesis using h by auto
        next
          case 4
          from 4(2) tb(2) have "s \<le> t" by linarith
          with 4(1,3) show ?thesis by blast
        qed auto
      qed
      then show ?thesis using res tb by auto
    qed
  qed
qed

subsection \<open>The outer loop\<close>

lemma loop_test_False:
  "t \<noteq> 0 \<Longrightarrow> loop_test fl False m eps t x = Inr (eps \<le> rnd_div fl (real m / t))"
  by (simp add: loop_test_def)

lemma loop_test_True:
  "x \<noteq> [] \<Longrightarrow> loop_test fl True m eps t x = Inr (0 < last x)"
  by (simp add: loop_test_def)

lemma barrier_stage_t:
  "barrier_stage fl solve c A b mu s = Some (Inr s') \<Longrightarrow> fst s' = rnd_mul fl (fst s * mu)"
  by (auto simp: barrier_stage_def split: prod.splits option.splits sum.splits)

lemma barrier_stage_traces:
  "barrier_stage fl solve c A b mu s = Some (Inr s') \<Longrightarrow>
     fst (snd (snd s')) = fst (snd (snd s)) @ [fst (snd s')] \<and>
     length (snd (snd (snd s'))) = Suc (length (snd (snd (snd s))))"
  by (auto simp: barrier_stage_def split: prod.splits option.splits sum.splits)


lemma stage_t_Suc:
  "stage_t fl mu t (Suc k) = rnd_mul fl (stage_t fl mu t k * mu)"
  by (induction k arbitrary: t) simp_all

lemma stage_t_exact:
  "(\<forall>j<k. rnd_mul fl (t * mu ^ j * mu) = t * mu ^ j * mu) \<Longrightarrow> stage_t fl mu t k = t * mu ^ k"
proof (induction k)
  case 0
  then show ?case by simp
next
  case (Suc k)
  then have "stage_t fl mu t k = t * mu ^ k" by simp
  moreover from Suc.prems have "rnd_mul fl (t * mu ^ k * mu) = t * mu ^ k * mu" by blast
  ultimately show ?case unfolding stage_t_Suc by (simp add: mult.assoc)
qed

lemma barrier_loop_stages:
  "(\<forall>j\<le>k. stage_t fl mu (fst s) j \<noteq> 0) \<Longrightarrow>
   (\<forall>j<k. eps \<le> rnd_div fl (real (nrows A) / stage_t fl mu (fst s) j)) \<Longrightarrow>
   rnd_div fl (real (nrows A) / stage_t fl mu (fst s) k) < eps \<Longrightarrow>
     barrier_loop fl solve c A b eps mu False s =
       (case barrier_stages fl solve c A b mu k s of
          None \<Rightarrow> None
        | Some (Inl e) \<Rightarrow> Some (Inl e)
        | Some (Inr s') \<Rightarrow> Some (Inr (snd s')))"
proof (induction k arbitrary: s)
  case 0
  then show ?case
    by (subst barrier_loop.simps) (simp add: loop_test_False)
next
  case (Suc k)
  from Suc.prems(1) have nz: "fst s \<noteq> 0" by force
  from Suc.prems(2) have go: "eps \<le> rnd_div fl (real (nrows A) / fst s)" by force
  show ?case
  proof (cases "barrier_stage fl solve c A b mu s")
    case None
    then show ?thesis using nz go
      by (subst barrier_loop.simps) (simp add: loop_test_False)
  next
    case (Some r)
    show ?thesis
    proof (cases r)
      case (Inl e)
      then show ?thesis using Some nz go
        by (subst barrier_loop.simps) (simp add: loop_test_False)
    next
      case (Inr s')
      have t': "fst s' = rnd_mul fl (fst s * mu)" using Some Inr barrier_stage_t by blast
      have z: "\<forall>j\<le>k. stage_t fl mu (fst s') j \<noteq> 0"
      proof (intro allI impI)
        fix j assume "j \<le> k"
        then have "Suc j \<le> Suc k" by simp
        with Suc.prems(1) have "stage_t fl mu (fst s) (Suc j) \<noteq> 0" by blast
        then show "stage_t fl mu (fst s') j \<noteq> 0" by (simp add: t')
      qed
      have a: "\<forall>j<k. eps \<le> rnd_div fl (real (nrows A) / stage_t fl mu (fst s') j)"
      proof (intro allI impI)
        fix j assume "j < k"
        then have "Suc j < Suc k" by simp
        with Suc.prems(2) have "eps \<le> rnd_div fl (real (nrows A) / stage_t fl mu (fst s) (Suc j))"
          by blast
        then show "eps \<le> rnd_div fl (real (nrows A) / stage_t fl mu (fst s') j)" by (simp add: t')
      qed
      have b: "rnd_div fl (real (nrows A) / stage_t fl mu (fst s') k) < eps"
        using Suc.prems(3) by (simp add: t')
      have "barrier_loop fl solve c A b eps mu False s = barrier_loop fl solve c A b eps mu False s'"
        using Some Inr nz go
        by (subst barrier_loop.simps) (simp add: loop_test_False)
      also have "\<dots> = (case barrier_stages fl solve c A b mu k s' of
          None \<Rightarrow> None
        | Some (Inl e) \<Rightarrow> Some (Inl e)
        | Some (Inr s'') \<Rightarrow> Some (Inr (snd s'')))"
        by (rule Suc.IH[OF z a b])
      finally show ?thesis using Some Inr by simp
    qed
  qed
qed

lemma barrier_stages_shape:
  "barrier_stages fl solve c A b mu k s = Some (Inr s') \<Longrightarrow>
     fst s' = stage_t fl mu (fst s) k \<and>
     length (fst (snd (snd s'))) = length (fst (snd (snd s))) + k \<and>
     length (snd (snd (snd s'))) = length (snd (snd (snd s))) + k"
proof (induction k arbitrary: s)
  case 0
  then show ?case by simp
next
  case (Suc k)
  then obtain s1 where s1: "barrier_stage fl solve c A b mu s = Some (Inr s1)"
    and rest: "barrier_stages fl solve c A b mu k s1 = Some (Inr s')"
    by (auto split: option.splits sum.splits)
  from Suc.IH[OF rest] barrier_stage_t[OF s1] barrier_stage_traces[OF s1]
  show ?case by simp
qed

lemma gap_reached:
  assumes "0 < eps" "1 < mu" "0 < t0"
  shows "\<exists>k. real m / (t0 * mu ^ k) < eps"
proof -
  obtain k where k: "real m / (t0 * eps) < mu ^ k"
    using real_arch_pow[OF assms(2)] by blast
  have "real m / (t0 * mu ^ k) < eps"
  proof -
    have p: "0 < mu ^ k" using assms(2) by simp
    from k have "real m < mu ^ k * (t0 * eps)"
      using assms by (simp add: pos_divide_less_eq)
    then have "real m < eps * (t0 * mu ^ k)" by (simp add: mult.commute mult.left_commute)
    then show ?thesis using assms p by (simp add: pos_divide_less_eq)
  qed
  then show ?thesis ..
qed
lemma barrier_loop_phase_one_exit:
  assumes "barrier_loop fl solve c A b eps mu phase_one s = Some r"
  shows "phase_one \<longrightarrow> (\<forall>r'. r = Inr r' \<longrightarrow> fst r' \<noteq> [] \<and> last (fst r') \<le> 0)"
proof (rule barrier_loop.raw_induct
    [OF _ assms, where P = "\<lambda>fl solve c A b eps mu phase_one s r.
       phase_one \<longrightarrow> (\<forall>r'. r = Inr r' \<longrightarrow> fst r' \<noteq> [] \<and> last (fst r') \<le> 0)"])
  fix loop fl solve c A b eps mu phase_one s r
  assume IH: "\<And>fl solve c A b eps mu phase_one s r. loop fl solve c A b eps mu phase_one s = Some r \<Longrightarrow>
       phase_one \<longrightarrow> (\<forall>r'. r = Inr r' \<longrightarrow> fst r' \<noteq> [] \<and> last (fst r') \<le> 0)"
    and body: "(case loop_test fl phase_one (nrows A) eps (fst s) (fst (snd s)) of
        Inl e \<Rightarrow> Some (Inl e)
      | Inr go \<Rightarrow>
          if go
          then (case barrier_stage fl solve c A b mu s of
                  None \<Rightarrow> None
                | Some (Inl e) \<Rightarrow> Some (Inl e)
                | Some (Inr s') \<Rightarrow> loop fl solve c A b eps mu phase_one s')
          else Some (Inr (snd s))) = Some r"
  show "phase_one \<longrightarrow> (\<forall>r'. r = Inr r' \<longrightarrow> fst r' \<noteq> [] \<and> last (fst r') \<le> 0)"
    using body IH
    by (auto simp: loop_test_def split: sum.splits if_splits option.splits)
qed


subsection \<open>Strict feasibility is invariant\<close>

lemma line_search_result:
  assumes "backtracking_line_search f dm df xk dx alpha beta = Some (t, calls)"
    and "0 \<le> beta" "beta \<le> 1"
  shows "\<exists>t1. dm (vec_add xk (scale t1 dx)) \<and> 0 \<le> t \<and> t \<le> t1 \<and>
     (\<forall>p \<in> set calls. p = xk \<or> (\<exists>s. 0 \<le> s \<and> s \<le> t1 \<and> p = vec_add xk (scale s dx)))"
proof -
  from assms(1) obtain t1 where t1: "domain_loop dm xk dx beta 1 = Some t1"
    and arm: "armijo_loop f df xk dx alpha beta t1 [] = Some (t, calls)"
    by (auto simp: backtracking_line_search_def split: option.splits)
  from domain_loop_result[OF t1] assms(2,3)
  have d: "dm (vec_add xk (scale t1 dx))" and p: "0 \<le> t1" by auto
  from armijo_loop_result[OF arm] assms(2,3) p
  have "0 \<le> t \<and> t \<le> t1 \<and>
     (\<forall>p \<in> set calls. p = xk \<or> (\<exists>s. 0 \<le> s \<and> s \<le> t1 \<and> p = vec_add xk (scale s dx)))"
    by simp
  with d show ?thesis by blast
qed

lemma newton_loop_invariant:
  assumes run: "newton_loop solve f dm df ddf eps xk steps = Some r"
  shows "(\<forall>H g y. solve H g = Inr y \<longrightarrow> length y = length g) \<longrightarrow>
     (\<forall>x. length x = n \<longrightarrow> length (df x) = n) \<longrightarrow>
     (\<forall>x d s t. Q x \<longrightarrow> length x = n \<longrightarrow> length d = n \<longrightarrow> 0 \<le> s \<longrightarrow> s \<le> t \<longrightarrow>
        dm (vec_add x (scale t d)) \<longrightarrow> Q (vec_add x (scale s d))) \<longrightarrow>
     Q xk \<longrightarrow> length xk = n \<longrightarrow> (\<forall>p \<in> set steps. Q p \<and> length p = n) \<longrightarrow>
     (\<forall>x' steps'. r = Inr (x', steps') \<longrightarrow>
        Q x' \<and> length x' = n \<and> (\<forall>p \<in> set steps'. Q p \<and> length p = n))"
proof (rule newton_loop.raw_induct[OF _ run, where P = "\<lambda>solve f dm df ddf eps xk steps r.
     (\<forall>H g y. solve H g = Inr y \<longrightarrow> length y = length g) \<longrightarrow>
     (\<forall>x. length x = n \<longrightarrow> length (df x) = n) \<longrightarrow>
     (\<forall>x d s t. Q x \<longrightarrow> length x = n \<longrightarrow> length d = n \<longrightarrow> 0 \<le> s \<longrightarrow> s \<le> t \<longrightarrow>
        dm (vec_add x (scale t d)) \<longrightarrow> Q (vec_add x (scale s d))) \<longrightarrow>
     Q xk \<longrightarrow> length xk = n \<longrightarrow> (\<forall>p \<in> set steps. Q p \<and> length p = n) \<longrightarrow>
     (\<forall>x' steps'. r = Inr (x', steps') \<longrightarrow>
        Q x' \<and> length x' = n \<and> (\<forall>p \<in> set steps'. Q p \<and> length p = n))"])
  fix loop :: "solver \<Rightarrow> (vec \<Rightarrow> real) \<Rightarrow> (vec \<Rightarrow> bool) \<Rightarrow> (vec \<Rightarrow> vec) \<Rightarrow> (vec \<Rightarrow> mat) \<Rightarrow> real
     \<Rightarrow> vec \<Rightarrow> vec list \<Rightarrow> (error + vec \<times> vec list) option"
  fix solve f dm df ddf eps xk steps r
  assume IH: "\<And>solve f dm df ddf eps xk steps r. loop solve f dm df ddf eps xk steps = Some r \<Longrightarrow>
     (\<forall>H g y. solve H g = Inr y \<longrightarrow> length y = length g) \<longrightarrow>
     (\<forall>x. length x = n \<longrightarrow> length (df x) = n) \<longrightarrow>
     (\<forall>x d s t. Q x \<longrightarrow> length x = n \<longrightarrow> length d = n \<longrightarrow> 0 \<le> s \<longrightarrow> s \<le> t \<longrightarrow>
        dm (vec_add x (scale t d)) \<longrightarrow> Q (vec_add x (scale s d))) \<longrightarrow>
     Q xk \<longrightarrow> length xk = n \<longrightarrow> (\<forall>p \<in> set steps. Q p \<and> length p = n) \<longrightarrow>
     (\<forall>x' steps'. r = Inr (x', steps') \<longrightarrow>
        Q x' \<and> length x' = n \<and> (\<forall>p \<in> set steps'. Q p \<and> length p = n))"
    and body: "(case solve (ddf xk) (df xk) of
        Inl e \<Rightarrow> Some (Inl e)
      | Inr y \<Rightarrow>
          (let dx = vec_neg y;
               lambda_sq = dot (vec_neg (df xk)) dx
           in if lambda_sq / 2 \<le> eps then Some (Inr (xk, steps))
              else (case backtracking_line_search f dm df xk dx (1 / 10) (8 / 10) of
                      None \<Rightarrow> None
                    | Some (t, calls) \<Rightarrow>
                        loop solve f dm df ddf eps
                          (vec_add xk (scale t dx)) (steps @ [vec_add xk (scale t dx)])))) = Some r"
  show "(\<forall>H g y. solve H g = Inr y \<longrightarrow> length y = length g) \<longrightarrow>
     (\<forall>x. length x = n \<longrightarrow> length (df x) = n) \<longrightarrow>
     (\<forall>x d s t. Q x \<longrightarrow> length x = n \<longrightarrow> length d = n \<longrightarrow> 0 \<le> s \<longrightarrow> s \<le> t \<longrightarrow>
        dm (vec_add x (scale t d)) \<longrightarrow> Q (vec_add x (scale s d))) \<longrightarrow>
     Q xk \<longrightarrow> length xk = n \<longrightarrow> (\<forall>p \<in> set steps. Q p \<and> length p = n) \<longrightarrow>
     (\<forall>x' steps'. r = Inr (x', steps') \<longrightarrow>
        Q x' \<and> length x' = n \<and> (\<forall>p \<in> set steps'. Q p \<and> length p = n))"
  proof (intro impI allI)
    fix x' steps'
    assume sh: "\<forall>H g y. solve H g = Inr y \<longrightarrow> length y = length g"
      and dfl: "\<forall>x. length x = n \<longrightarrow> length (df x) = n"
      and seg: "\<forall>x d s t. Q x \<longrightarrow> length x = n \<longrightarrow> length d = n \<longrightarrow> 0 \<le> s \<longrightarrow> s \<le> t \<longrightarrow>
        dm (vec_add x (scale t d)) \<longrightarrow> Q (vec_add x (scale s d))"
      and dx: "Q xk" and lx: "length xk = n"
      and st: "\<forall>p \<in> set steps. Q p \<and> length p = n"
      and r: "r = Inr (x', steps')"
    show "Q x' \<and> length x' = n \<and> (\<forall>p \<in> set steps'. Q p \<and> length p = n)"
    proof (cases "solve (ddf xk) (df xk)")
      case (Inl e)
      then show ?thesis using body r by simp
    next
      case (Inr y)
      have ly: "length (vec_neg y) = n" using sh Inr dfl lx by (simp add: length_vec_neg)
      show ?thesis
      proof (cases "dot (vec_neg (df xk)) (vec_neg y) / 2 \<le> eps")
        case True
        then have "r = Inr (xk, steps)" using body Inr by (simp add: Let_def)
        then show ?thesis using r dx lx st by simp
      next
        case False
        then obtain t calls where
          ls: "backtracking_line_search f dm df xk (vec_neg y) (1 / 10) (8 / 10) = Some (t, calls)"
          and rec: "loop solve f dm df ddf eps (vec_add xk (scale t (vec_neg y)))
                      (steps @ [vec_add xk (scale t (vec_neg y))]) = Some r"
          using body Inr by (auto simp: Let_def split: option.splits)
        from line_search_result[OF ls] obtain t1 where
          t1: "dm (vec_add xk (scale t1 (vec_neg y)))" "0 \<le> t" "t \<le> t1" by auto
        have dn: "Q (vec_add xk (scale t (vec_neg y)))"
          using seg dx lx ly t1 by blast
        have ln: "length (vec_add xk (scale t (vec_neg y))) = n"
          using lx ly by (simp add: length_vec_add length_scale)
        from IH[OF rec] sh dfl seg dn ln st r show ?thesis by simp
      qed
    qed
  qed
qed

lemma length_barrier_df:
  "length c = ncols A \<Longrightarrow> length (barrier_df t c A b x) = ncols A"
  by (simp add: barrier_df_def length_vec_add length_scale sum_axis1_def div_rows_def
      transpose_mat_def)

lemma barrier_stage_invariant:
  assumes st: "barrier_stage fl solve c A b mu (t, x, steps, ns) = Some (Inr (t', x', steps', ns'))"
    and sh: "\<forall>H g y. solve H g = Inr y \<longrightarrow> length y = length g"
    and lc: "length c = ncols A"
    and seg: "\<forall>y d s u. Q y \<longrightarrow> length y = ncols A \<longrightarrow> length d = ncols A \<longrightarrow>
       0 \<le> s \<longrightarrow> s \<le> u \<longrightarrow> barrier_in_domain A b (vec_add y (scale u d)) \<longrightarrow>
       Q (vec_add y (scale s d))"
    and inv: "stage_inv Q (ncols A) x steps ns"
  shows "stage_inv Q (ncols A) x' steps' ns'"
proof -
  from st obtain tr where
    nm: "newtons_method solve (barrier_f t c A b) (barrier_in_domain A b)
            (barrier_df t c A b) (barrier_ddf A b) x None = Some (Inr (x', tr))"
    and eqs: "steps' = steps @ [x']" "ns' = ns @ [tr]"
    by (auto simp: barrier_stage_def split: option.splits sum.splits)
  have dfl: "\<forall>y. length y = ncols A \<longrightarrow> length (barrier_df t c A b y) = ncols A"
    using lc by (simp add: length_barrier_df)
  have x: "Q x" "length x = ncols A" using inv by (simp_all add: stage_inv_def)
  from nm have run: "newton_loop solve (barrier_f t c A b) (barrier_in_domain A b)
            (barrier_df t c A b) (barrier_ddf A b) (1 / 10 ^ 4) x [x] = Some (Inr (x', tr))"
    by (simp add: newtons_method_def)
  from newton_loop_invariant[OF run, of "ncols A" Q] sh dfl seg x
  have "Q x' \<and> length x' = ncols A \<and> (\<forall>p \<in> set tr. Q p \<and> length p = ncols A)"
    by simp
  then show ?thesis using inv eqs by (auto simp: stage_inv_def)
qed

lemma barrier_loop_invariant:
  assumes run: "barrier_loop fl solve c A b eps mu phase_one s = Some r"
  shows "(\<forall>H g y. solve H g = Inr y \<longrightarrow> length y = length g) \<longrightarrow> length c = ncols A \<longrightarrow>
     (\<forall>y d s u. Q y \<longrightarrow> length y = ncols A \<longrightarrow> length d = ncols A \<longrightarrow>
       0 \<le> s \<longrightarrow> s \<le> u \<longrightarrow> barrier_in_domain A b (vec_add y (scale u d)) \<longrightarrow>
       Q (vec_add y (scale s d))) \<longrightarrow>
     (\<forall>t x steps ns. s = (t, x, steps, ns) \<longrightarrow> stage_inv Q (ncols A) x steps ns) \<longrightarrow>
     (\<forall>x steps ns. r = Inr (x, steps, ns) \<longrightarrow> stage_inv Q (ncols A) x steps ns)"
proof (rule barrier_loop.raw_induct[OF _ run, where P = "\<lambda>fl solve c A b eps mu phase_one s r.
     (\<forall>H g y. solve H g = Inr y \<longrightarrow> length y = length g) \<longrightarrow> length c = ncols A \<longrightarrow>
     (\<forall>y d s u. Q y \<longrightarrow> length y = ncols A \<longrightarrow> length d = ncols A \<longrightarrow>
       0 \<le> s \<longrightarrow> s \<le> u \<longrightarrow> barrier_in_domain A b (vec_add y (scale u d)) \<longrightarrow>
       Q (vec_add y (scale s d))) \<longrightarrow>
     (\<forall>t x steps ns. s = (t, x, steps, ns) \<longrightarrow> stage_inv Q (ncols A) x steps ns) \<longrightarrow>
     (\<forall>x steps ns. r = Inr (x, steps, ns) \<longrightarrow> stage_inv Q (ncols A) x steps ns)"])
  fix loop :: "rounding \<Rightarrow> solver \<Rightarrow> vec \<Rightarrow> mat \<Rightarrow> vec \<Rightarrow> real \<Rightarrow> real \<Rightarrow> bool \<Rightarrow> barrier_state
     \<Rightarrow> (error + vec \<times> vec list \<times> vec list list) option"
  fix fl solve c A b eps mu phase_one s r
  assume IH: "\<And>fl solve c A b eps mu phase_one s r. loop fl solve c A b eps mu phase_one s = Some r \<Longrightarrow>
     (\<forall>H g y. solve H g = Inr y \<longrightarrow> length y = length g) \<longrightarrow> length c = ncols A \<longrightarrow>
     (\<forall>y d s u. Q y \<longrightarrow> length y = ncols A \<longrightarrow> length d = ncols A \<longrightarrow>
       0 \<le> s \<longrightarrow> s \<le> u \<longrightarrow> barrier_in_domain A b (vec_add y (scale u d)) \<longrightarrow>
       Q (vec_add y (scale s d))) \<longrightarrow>
     (\<forall>t x steps ns. s = (t, x, steps, ns) \<longrightarrow> stage_inv Q (ncols A) x steps ns) \<longrightarrow>
     (\<forall>x steps ns. r = Inr (x, steps, ns) \<longrightarrow> stage_inv Q (ncols A) x steps ns)"
    and body: "(case loop_test fl phase_one (nrows A) eps (fst s) (fst (snd s)) of
        Inl e \<Rightarrow> Some (Inl e)
      | Inr go \<Rightarrow>
          if go
          then (case barrier_stage fl solve c A b mu s of
                  None \<Rightarrow> None
                | Some (Inl e) \<Rightarrow> Some (Inl e)
                | Some (Inr s') \<Rightarrow> loop fl solve c A b eps mu phase_one s')
          else Some (Inr (snd s))) = Some r"
  show "(\<forall>H g y. solve H g = Inr y \<longrightarrow> length y = length g) \<longrightarrow> length c = ncols A \<longrightarrow>
     (\<forall>y d s u. Q y \<longrightarrow> length y = ncols A \<longrightarrow> length d = ncols A \<longrightarrow>
       0 \<le> s \<longrightarrow> s \<le> u \<longrightarrow> barrier_in_domain A b (vec_add y (scale u d)) \<longrightarrow>
       Q (vec_add y (scale s d))) \<longrightarrow>
     (\<forall>t x steps ns. s = (t, x, steps, ns) \<longrightarrow> stage_inv Q (ncols A) x steps ns) \<longrightarrow>
     (\<forall>x steps ns. r = Inr (x, steps, ns) \<longrightarrow> stage_inv Q (ncols A) x steps ns)"
  proof (intro impI allI)
    fix x steps ns
    assume sh: "\<forall>H g y. solve H g = Inr y \<longrightarrow> length y = length g"
      and lc: "length c = ncols A"
      and seg: "\<forall>y d s u. Q y \<longrightarrow> length y = ncols A \<longrightarrow> length d = ncols A \<longrightarrow>
       0 \<le> s \<longrightarrow> s \<le> u \<longrightarrow> barrier_in_domain A b (vec_add y (scale u d)) \<longrightarrow>
       Q (vec_add y (scale s d))"
      and inv: "\<forall>t x steps ns. s = (t, x, steps, ns) \<longrightarrow> stage_inv Q (ncols A) x steps ns"
      and r: "r = Inr (x, steps, ns)"
    obtain t0 x0 st0 ns0 where s: "s = (t0, x0, st0, ns0)" by (cases s) auto
    show "stage_inv Q (ncols A) x steps ns"
    proof (cases "loop_test fl phase_one (nrows A) eps (fst s) (fst (snd s))")
      case (Inl e)
      then show ?thesis using body r by simp
    next
      case (Inr go)
      show ?thesis
      proof (cases go)
        case False
        then have "r = Inr (snd s)" using body Inr by simp
        then show ?thesis using r inv s by simp
      next
        case True
        then obtain s' where s': "barrier_stage fl solve c A b mu s = Some (Inr s')"
          and rec: "loop fl solve c A b eps mu phase_one s' = Some r"
          using body Inr r by (auto split: option.splits sum.splits)
        obtain t1 x1 st1 ns1 where s1: "s' = (t1, x1, st1, ns1)" by (cases s') auto
        have "stage_inv Q (ncols A) x0 st0 ns0" using inv s by simp
        from barrier_stage_invariant[OF s'[unfolded s s1] sh lc seg this]
        have "stage_inv Q (ncols A) x1 st1 ns1" .
        with IH[OF rec] sh lc seg r s1 show ?thesis by simp
      qed
    qed
  qed
qed

subsection \<open>One turn of each loop\<close>

lemma domain_loop_accept:
  "dm (vec_add xk (scale t dx)) \<Longrightarrow> domain_loop dm xk dx beta t = Some t"
  by (subst domain_loop.simps) simp

lemma domain_loop_shrink:
  "\<not> dm (vec_add xk (scale t dx)) \<Longrightarrow>
     domain_loop dm xk dx beta t = domain_loop dm xk dx beta (t * beta)"
  by (subst domain_loop.simps) simp

lemma armijo_loop_accept:
  "\<not> f (vec_add xk (scale t dx)) > f xk + alpha * t * dot (df xk) dx \<Longrightarrow>
     armijo_loop f df xk dx alpha beta t calls = Some (t, calls @ [vec_add xk (scale t dx), xk])"
  by (subst armijo_loop.simps) simp

lemma armijo_loop_shrink:
  "f (vec_add xk (scale t dx)) > f xk + alpha * t * dot (df xk) dx \<Longrightarrow>
     armijo_loop f df xk dx alpha beta t calls =
       armijo_loop f df xk dx alpha beta (t * beta) (calls @ [vec_add xk (scale t dx), xk])"
  by (subst armijo_loop.simps) simp

lemma newton_loop_raise:
  "solve (ddf xk) (df xk) = Inl e \<Longrightarrow>
     newton_loop solve f dm df ddf eps xk steps = Some (Inl e)"
  by (subst newton_loop.simps) simp

lemma newton_loop_stop:
  "solve (ddf xk) (df xk) = Inr y \<Longrightarrow> dot (vec_neg (df xk)) (vec_neg y) / 2 \<le> eps \<Longrightarrow>
     newton_loop solve f dm df ddf eps xk steps = Some (Inr (xk, steps))"
  by (subst newton_loop.simps) (simp add: Let_def)

lemma newton_loop_step:
  "solve (ddf xk) (df xk) = Inr y \<Longrightarrow> \<not> dot (vec_neg (df xk)) (vec_neg y) / 2 \<le> eps \<Longrightarrow>
     backtracking_line_search f dm df xk (vec_neg y) (1 / 10) (8 / 10) = Some (t, calls) \<Longrightarrow>
     newton_loop solve f dm df ddf eps xk steps =
       newton_loop solve f dm df ddf eps (vec_add xk (scale t (vec_neg y)))
         (steps @ [vec_add xk (scale t (vec_neg y))])"
  by (subst newton_loop.simps) (simp add: Let_def)

lemma newton_loop_diverge:
  "solve (ddf xk) (df xk) = Inr y \<Longrightarrow> \<not> dot (vec_neg (df xk)) (vec_neg y) / 2 \<le> eps \<Longrightarrow>
     backtracking_line_search f dm df xk (vec_neg y) (1 / 10) (8 / 10) = None \<Longrightarrow>
     newton_loop solve f dm df ddf eps xk steps = None"
  by (subst newton_loop.simps) (simp add: Let_def)

subsection \<open>Negation and the matrix-vector product\<close>

lemma dot_neg_right: "dot r (vec_neg y) = - dot r y"
proof (induction r arbitrary: y)
  case Nil
  then show ?case by (simp add: dot_def)
next
  case (Cons a r)
  show ?case
  proof (cases y)
    case Nil
    then show ?thesis by (simp add: dot_def vec_neg_def)
  next
    case (Cons u y')
    have "dot r (vec_neg y') = - dot r y'" by (rule Cons.IH)
    then show ?thesis using Cons by (simp add: dot_def vec_neg_def)
  qed
qed

lemma dot_neg_left: "dot (vec_neg r) y = - dot r y"
proof (induction r arbitrary: y)
  case Nil
  then show ?case by (simp add: dot_def vec_neg_def)
next
  case (Cons a r)
  show ?case
  proof (cases y)
    case Nil
    then show ?thesis by (simp add: dot_def vec_neg_def)
  next
    case (Cons u y')
    have "dot (vec_neg r) y' = - dot r y'" by (rule Cons.IH)
    then show ?thesis using Cons by (simp add: dot_def vec_neg_def)
  qed
qed

lemma mat_vec_neg: "mat_vec H (vec_neg y) = vec_neg (mat_vec H y)"
  by (simp add: mat_vec_def vec_neg_def dot_neg_right[unfolded vec_neg_def])

subsection \<open>The points at which the line search calls the objective\<close>

lemma armijo_loop_calls:
  assumes "armijo_loop f df xk dx alpha beta t calls = Some r"
  shows "set calls \<subseteq> set (snd r) \<and> xk \<in> set (snd r) \<and> vec_add xk (scale (fst r) dx) \<in> set (snd r)"
proof (rule armijo_loop.raw_induct[OF _ assms, where P = "\<lambda>f df xk dx alpha beta t calls r.
     set calls \<subseteq> set (snd r) \<and> xk \<in> set (snd r) \<and> vec_add xk (scale (fst r) dx) \<in> set (snd r)"])
  fix loop :: "(vec \<Rightarrow> real) \<Rightarrow> (vec \<Rightarrow> vec) \<Rightarrow> vec \<Rightarrow> vec \<Rightarrow> real \<Rightarrow> real \<Rightarrow> real \<Rightarrow> vec list
     \<Rightarrow> (real \<times> vec list) option"
  fix f df xk dx alpha beta t calls r
  assume IH: "\<And>f df xk dx alpha beta t calls r. loop f df xk dx alpha beta t calls = Some r \<Longrightarrow>
     set calls \<subseteq> set (snd r) \<and> xk \<in> set (snd r) \<and> vec_add xk (scale (fst r) dx) \<in> set (snd r)"
    and body: "(if f (vec_add xk (scale t dx)) > f xk + alpha * t * dot (df xk) dx
      then loop f df xk dx alpha beta (t * beta) (calls @ [vec_add xk (scale t dx), xk])
      else Some (t, calls @ [vec_add xk (scale t dx), xk])) = Some r"
  show "set calls \<subseteq> set (snd r) \<and> xk \<in> set (snd r) \<and> vec_add xk (scale (fst r) dx) \<in> set (snd r)"
  proof (cases "f (vec_add xk (scale t dx)) > f xk + alpha * t * dot (df xk) dx")
    case False
    then have "r = (t, calls @ [vec_add xk (scale t dx), xk])" using body by simp
    then show ?thesis by auto
  next
    case True
    then have "loop f df xk dx alpha beta (t * beta) (calls @ [vec_add xk (scale t dx), xk]) = Some r"
      using body by simp
    from IH[OF this] show ?thesis by auto
  qed
qed

subsection \<open>The solver of the examples\<close>

lemma cramer_one: "a \<noteq> 0 \<Longrightarrow> cramer_solve \<lparr>ncols = Suc 0, rows = [[a]]\<rparr> [g] = Inr [g / a]"
  by (simp add: cramer_solve_def nrows_def)

lemma cramer_solve_shape: "cramer_solve H g = Inr y \<Longrightarrow> length y = length g"
  by (auto simp: cramer_solve_def split: if_splits)

subsection \<open>Rounding to the nearest double\<close>

text \<open>Once the binade of \<open>r\<close> is known, \<open>binary64 r\<close> is computed by integer rounding.\<close>

lemma binary64_eval:
  assumes "2 powi E \<le> \<bar>r\<bar>" "\<bar>r\<bar> < 2 powi (E + 1)"
  shows "binary64 r = of_int (round_half_even (r / 2 powi (max E (- 1022) - 52)))
                        * 2 powi (max E (- 1022) - 52)"
proof -
  have "(0::real) < 2 powi E" by (rule zero_less_power_int) simp
  with assms(1) have pos: "0 < \<bar>r\<bar>" by linarith
  then have r0: "r \<noteq> 0" by simp
  have a: "2 powr real_of_int E = (2::real) powi E"
    and b: "2 powr real_of_int (E + 1) = (2::real) powi (E + 1)"
    by (rule powr_real_of_int'; simp)+
  have "\<lfloor>log 2 \<bar>r\<bar>\<rfloor> = E"
    using assms floor_log_eq_powr_iff[OF pos, of 2 E] unfolding a b by simp
  then show ?thesis using r0 by (simp add: binary64_def Let_def)
qed

lemma binary64_values:
  "binary64 1 = 1" "binary64 2 = 2" "binary64 4 = 4" "binary64 (1 / 2) = 1 / 2"
  using binary64_eval[of 0 1] binary64_eval[of 1 2] binary64_eval[of 2 4]
    binary64_eval[of "- 1" "1 / 2"]
  by (simp_all add: round_half_even_def Let_def)

subsection \<open>A run on a concrete instance\<close>

text \<open>
  The instance \<open>interval_A\<close>, \<open>b = [1, 1]\<close>: minimise \<open>0\<close> subject to \<open>x \<le> 1\<close> and \<open>-x \<le> 1\<close>, started at the analytic
  centre \<open>x = 0\<close> with \<open>eps = 1\<close>, \<open>mu = 2\<close>, \<open>t0 = 1\<close>. The gradient of every barrier
  objective vanishes at \<open>0\<close>, so every centering step returns at once; the loop test holds
  for \<open>t = 1\<close> and \<open>t = 2\<close> and fails for \<open>t = 4\<close>. The scalars are floats; every quotient
  and product of the run is a power of two, which is a double.
\<close>

lemma interval_rows: "nrows interval_A = 2"
  by (simp add: interval_A_def nrows_def)

lemma centre_ddf: "barrier_ddf interval_A [1, 1] [0] = \<lparr>ncols = 1, rows = [[2]]\<rparr>"
  by (simp add: interval_A_def barrier_ddf_def mat_mul_def div_rows_def transpose_mat_def vec_sub_def
      mat_vec_def dot_def nrows_def)

lemma centre_df: "barrier_df t [0] interval_A [1, 1] [0] = [0]"
  by (simp add: interval_A_def barrier_df_def sum_axis1_def div_rows_def transpose_mat_def vec_sub_def
      mat_vec_def dot_def nrows_def vec_add_def scale_def)

lemma centre_newton:
  "newtons_method cramer_solve (barrier_f t [0] interval_A [1, 1])
     (barrier_in_domain interval_A [1, 1])
     (barrier_df t [0] interval_A [1, 1])
     (barrier_ddf interval_A [1, 1]) [0] None
   = Some (Inr ([0], [[0]]))"
  by (simp add: newtons_method_def newton_loop.simps centre_ddf centre_df cramer_solve_def
      nrows_def vec_neg_def dot_def Let_def)

lemma centre_stage:
  "barrier_stage fl cramer_solve [0] interval_A [1, 1] mu (t, [0], steps, newt_steps)
   = Some (Inr (rnd_mul fl (t * mu), [0], steps @ [[0]], newt_steps @ [[[0]]]))"
  by (simp add: barrier_stage_def centre_newton)

lemma centre_stages:
  "barrier_stages float_scalars cramer_solve [0] interval_A [1, 1] 2 2 (1, [0], [[0]], [])
   = Some (Inr (4, [0], [[0], [0], [0]], [[[0]], [[0]]]))"
  by (simp add: numeral_2_eq_2 centre_stage float_scalars_def binary64_values)

lemma centre_least:
  "(LEAST k. real (nrows interval_A) / (1 * 2 ^ k) < (1::real)) = 2"
proof (rule Least_equality)
  show "real (nrows interval_A) / (1 * 2 ^ 2) < (1::real)"
    by (simp add: interval_rows)
next
  fix y :: nat
  assume a: "real (nrows interval_A) / (1 * 2 ^ y) < (1::real)"
  show "2 \<le> y"
  proof (rule ccontr)
    assume "\<not> 2 \<le> y"
    then have "y = 0 \<or> y = 1" by auto
    then show False using a by (auto simp: interval_rows)
  qed
qed

subsection \<open>A run with a Newton step\<close>

text \<open>
  The instance \<open>halfline_A\<close>, \<open>b = [0]\<close>, \<open>c = [-1]\<close>: maximise \<open>x\<close> subject to \<open>x \<le> 0\<close>,
  started at \<open>x = -177/200\<close> with \<open>eps = 1\<close>, \<open>mu = 2\<close>, \<open>t0 = 1\<close>. The barrier objective
  for \<open>t = 1\<close> is \<open>-x - ln (-x)\<close>, with its minimum at \<open>-1\<close>. The first Newton iteration has
  the decrement \<open>\<lambda>\<^sup>2 = 529/40000\<close>, so it takes a step: the line search accepts the step
  length \<open>1\<close> (the Armijo test needs \<open>ln (223/200) \<ge> 23/223\<close>), and the new point is
  \<open>-39471/40000\<close>. There \<open>\<lambda>\<^sup>2 / 2 = 279841/3200000000 \<le> 1/10000\<close> and Newton's method
  returns. Then \<open>t = 2\<close> and \<open>m / t = 1/2 < eps\<close>: the outer loop stops after one stage.
  The scalars are floats; \<open>2\<close> and \<open>1/2\<close> are doubles.
\<close>

lemma halfline_f: "x < 0 \<Longrightarrow> barrier_f 1 [- 1] halfline_A [0] [x] = - x - ln (- x)"
  by (simp add: barrier_f_def halfline_A_def dot_def scale_def vec_sub_def mat_vec_def)

lemma halfline_dom: "barrier_in_domain halfline_A [0] [x] \<longleftrightarrow> x < 0"
  by (simp add: barrier_in_domain_def halfline_A_def dot_def vec_sub_def mat_vec_def)

lemma halfline_df: "barrier_df 1 [- 1] halfline_A [0] [x] = [- 1 - 1 / x]"
  by (simp add: barrier_df_def halfline_A_def sum_axis1_def div_rows_def transpose_mat_def
      vec_sub_def mat_vec_def dot_def nrows_def vec_add_def scale_def)

lemma halfline_ddf: "barrier_ddf halfline_A [0] [x] = \<lparr>ncols = 1, rows = [[1 / x\<^sup>2]]\<rparr>"
  by (simp add: barrier_ddf_def halfline_A_def mat_mul_def div_rows_def transpose_mat_def
      vec_sub_def mat_vec_def dot_def nrows_def)

lemma ln_lower: "ln (223 / 200 :: real) \<ge> 23 / 223"
proof -
  have "ln (200 / 223 :: real) \<le> 200 / 223 - 1" by (rule ln_le_minus_one) simp
  moreover have "ln (200 / 223 :: real) = - ln (223 / 200)"
    by (simp add: ln_div)
  ultimately show ?thesis by simp
qed

lemma halfline_armijo:
  "\<not> barrier_f 1 [- 1] halfline_A [0] (vec_add [- 177 / 200] (scale 1 (vec_neg [4071 / 40000])))
       > barrier_f 1 [- 1] halfline_A [0] [- 177 / 200]
         + (1 / 10) * 1 * dot (barrier_df 1 [- 1] halfline_A [0] [- 177 / 200]) (vec_neg [4071 / 40000])"
proof -
  have "ln (177 / 200 * (223 / 200) :: real) = ln (177 / 200) + ln (223 / 200)"
    by (rule ln_mult_pos) simp_all
  then have "ln (39471 / 40000 :: real) = ln (177 / 200) + ln (223 / 200)" by simp
  with ln_lower show ?thesis
    by (simp add: halfline_f halfline_df vec_add_def scale_def vec_neg_def dot_def)
qed

lemma halfline_line_search:
  "backtracking_line_search (barrier_f 1 [- 1] halfline_A [0]) (barrier_in_domain halfline_A [0])
     (barrier_df 1 [- 1] halfline_A [0]) [- 177 / 200] (vec_neg [4071 / 40000]) (1 / 10) (8 / 10)
   = Some (1, [vec_add [- 177 / 200] (scale 1 (vec_neg [4071 / 40000])), [- 177 / 200]])"
proof -
  have "barrier_in_domain halfline_A [0] (vec_add [- 177 / 200] (scale 1 (vec_neg [4071 / 40000])))"
    by (simp add: halfline_dom vec_add_def scale_def vec_neg_def)
  then have d: "domain_loop (barrier_in_domain halfline_A [0]) [- 177 / 200]
      (vec_neg [4071 / 40000]) (8 / 10) 1 = Some 1"
    by (rule domain_loop_accept)
  have a: "armijo_loop (barrier_f 1 [- 1] halfline_A [0]) (barrier_df 1 [- 1] halfline_A [0])
      [- 177 / 200] (vec_neg [4071 / 40000]) (1 / 10) (8 / 10) 1 []
    = Some (1, [] @ [vec_add [- 177 / 200] (scale 1 (vec_neg [4071 / 40000])), [- 177 / 200]])"
    by (rule armijo_loop_accept) (rule halfline_armijo)
  show ?thesis
    unfolding backtracking_line_search_def d using a by simp
qed

lemma halfline_newton:
  "newtons_method cramer_solve (barrier_f 1 [- 1] halfline_A [0]) (barrier_in_domain halfline_A [0])
     (barrier_df 1 [- 1] halfline_A [0]) (barrier_ddf halfline_A [0]) [- 177 / 200] None
   = Some (Inr ([- 39471 / 40000], [[- 177 / 200], [- 39471 / 40000]]))"
proof -
  have sol: "cramer_solve (barrier_ddf halfline_A [0] [- 177 / 200])
        (barrier_df 1 [- 1] halfline_A [0] [- 177 / 200]) = Inr [4071 / 40000]"
    by (simp add: halfline_df halfline_ddf cramer_one power2_eq_square)
  have go: "\<not> dot (vec_neg (barrier_df 1 [- 1] halfline_A [0] [- 177 / 200]))
        (vec_neg [4071 / 40000]) / 2 \<le> 1 / 10 ^ 4"
    by (simp add: halfline_df vec_neg_def dot_def)
  have x1: "vec_add [- 177 / 200] (scale 1 (vec_neg [4071 / 40000])) = [- 39471 / 40000]"
    by (simp add: vec_add_def scale_def vec_neg_def)
  have sol1: "cramer_solve (barrier_ddf halfline_A [0] [- 39471 / 40000])
        (barrier_df 1 [- 1] halfline_A [0] [- 39471 / 40000]) = Inr [20880159 / 1600000000]"
    by (simp add: halfline_df halfline_ddf cramer_one power2_eq_square)
  have stop: "dot (vec_neg (barrier_df 1 [- 1] halfline_A [0] [- 39471 / 40000]))
        (vec_neg [20880159 / 1600000000]) / 2 \<le> 1 / 10 ^ 4"
    by (simp add: halfline_df vec_neg_def dot_def)
  have "newton_loop cramer_solve (barrier_f 1 [- 1] halfline_A [0])
      (barrier_in_domain halfline_A [0]) (barrier_df 1 [- 1] halfline_A [0])
      (barrier_ddf halfline_A [0]) (1 / 10 ^ 4) [- 177 / 200] [[- 177 / 200]]
    = newton_loop cramer_solve (barrier_f 1 [- 1] halfline_A [0])
      (barrier_in_domain halfline_A [0]) (barrier_df 1 [- 1] halfline_A [0])
      (barrier_ddf halfline_A [0]) (1 / 10 ^ 4) [- 39471 / 40000]
      ([[- 177 / 200]] @ [[- 39471 / 40000]])"
    using newton_loop_step[where solve = cramer_solve and ddf = "barrier_ddf halfline_A [0]"
        and df = "barrier_df 1 [- 1] halfline_A [0]" and xk = "[- 177 / 200]"
        and y = "[4071 / 40000]" and steps = "[[- 177 / 200]]", OF sol go halfline_line_search]
    unfolding x1 .
  also have "\<dots> = Some (Inr ([- 39471 / 40000], [[- 177 / 200]] @ [[- 39471 / 40000]]))"
    by (rule newton_loop_stop[where y = "[20880159 / 1600000000]"]) (rule sol1, rule stop)
  finally show ?thesis by (simp add: newtons_method_def)
qed

lemma halfline_run:
  "barrier_method float_scalars cramer_solve [- 1] halfline_A [0] [- 177 / 200] 1 2 1 False
   = Some (Inr ([- 39471 / 40000], [[- 177 / 200], [- 39471 / 40000]],
        [[[- 177 / 200], [- 39471 / 40000]]]))"
proof -
  have m: "nrows halfline_A = 1" by (simp add: halfline_A_def nrows_def)
  have st: "barrier_stage float_scalars cramer_solve [- 1] halfline_A [0] 2 (1, [- 177 / 200], [[- 177 / 200]], [])
     = Some (Inr (rnd_mul float_scalars (1 * 2), [- 39471 / 40000],
         [[- 177 / 200]] @ [[- 39471 / 40000]], [] @ [[[- 177 / 200], [- 39471 / 40000]]]))"
    by (simp only: barrier_stage_def prod.case halfline_newton option.case sum.case)
  have tm: "rnd_mul float_scalars (1 * 2) = 2"
    by (simp add: float_scalars_def binary64_values)
  have t1: "loop_test float_scalars False (nrows halfline_A) 1 1 [- 177 / 200] = Inr True"
    by (simp add: loop_test_def m float_scalars_def binary64_values)
  have t2: "loop_test float_scalars False (nrows halfline_A) 1 2 [- 39471 / 40000] = Inr False"
    by (simp add: loop_test_def m float_scalars_def binary64_values)
  show ?thesis
    unfolding barrier_method_def
    apply (subst barrier_loop.simps)
    apply (simp only: fst_conv snd_conv t1 sum.case if_True st option.case tm)
    apply (subst barrier_loop.simps)
    apply (simp only: fst_conv snd_conv t2 sum.case if_False)
    apply simp
    done
qed


lemma centre_stage_t:
  "stage_t float_scalars 2 1 0 = 1" "stage_t float_scalars 2 1 1 = 2"
  "stage_t float_scalars 2 1 2 = 4"
  by (simp_all add: numeral_2_eq_2 float_scalars_def binary64_values)

subsection \<open>Two runs where the quotient is rounded up to \<open>eps\<close>\<close>

text \<open>
  On the instance \<open>interval_A\<close> again. With int scalars, \<open>t0 = 2 ^ 60 + 1\<close> and
  \<open>eps = 2 ^ - 59\<close>: the quotient \<open>2 / (2 ^ 60 + 1)\<close> lies below \<open>2 ^ - 59\<close> by less than half
  the spacing of the doubles there, so the machine returns \<open>2 ^ - 59\<close> and the test holds.
  With float scalars, \<open>t0 = 20\<close> and \<open>eps\<close> the double written \<^verbatim>\<open>0.1\<close>, which is
  \<open>3602879701896397 / 2 ^ 55\<close>, a little above one tenth: the quotient \<open>2 / 20\<close> is rounded
  up to this double and the test holds. After one stage the test fails in both runs.
\<close>

lemma tie_int:
  "loop_test int_scalars False (nrows interval_A) (1 / 2 ^ 59) (2 ^ 60 + 1) [0] = Inr True"
  "loop_test int_scalars False (nrows interval_A) (1 / 2 ^ 59)
     (rnd_mul int_scalars ((2 ^ 60 + 1) * 20)) [0] = Inr False"
  using binary64_eval[of "- 60" "2 / (2 ^ 60 + 1)"]
    binary64_eval[of "- 64" "2 / ((2 ^ 60 + 1) * 20)"]
  by (simp_all add: loop_test_def interval_rows int_scalars_def round_half_even_def Let_def)

lemma tie_float:
  "loop_test float_scalars False (nrows interval_A) (3602879701896397 / 2 ^ 55) 20 [0] = Inr True"
  "loop_test float_scalars False (nrows interval_A) (3602879701896397 / 2 ^ 55)
     (rnd_mul float_scalars (20 * 20)) [0] = Inr False"
  using binary64_eval[of "- 4" "2 / 20"] binary64_eval[of 8 "20 * 20"]
    binary64_eval[of "- 8" "2 / 400"]
  by (simp_all add: loop_test_def interval_rows float_scalars_def round_half_even_def Let_def)

lemma tie_int_run:
  "barrier_method int_scalars cramer_solve [0] interval_A [1, 1] [0] (1 / 2 ^ 59) 20
      (2 ^ 60 + 1) False = Some (Inr ([0], [[0], [0]], [[[0]]]))"
  unfolding barrier_method_def
  apply (subst barrier_loop.simps)
  apply (simp only: fst_conv snd_conv tie_int sum.case if_True centre_stage option.case)
  apply (subst barrier_loop.simps)
  apply (simp only: fst_conv snd_conv tie_int sum.case if_False)
  apply simp
  done

lemma tie_float_run:
  "barrier_method float_scalars cramer_solve [0] interval_A [1, 1] [0]
      (3602879701896397 / 2 ^ 55) 20 20 False = Some (Inr ([0], [[0], [0]], [[[0]]]))"
  unfolding barrier_method_def
  apply (subst barrier_loop.simps)
  apply (simp only: fst_conv snd_conv tie_float sum.case if_True centre_stage option.case)
  apply (subst barrier_loop.simps)
  apply (simp only: fst_conv snd_conv tie_float sum.case if_False)
  apply simp
  done

subsection \<open>Two line searches\<close>

lemma below_one_search:
  "backtracking_line_search gap_f below_one gap_df [0] [2] (1 / 10) (8 / 10)
     = Some (256 / 625, [[512 / 625], [0]])"
proof -
  have s0: "\<not> below_one (vec_add [0] (scale 1 [2]))"
    and s1: "\<not> below_one (vec_add [0] (scale (1 * (8 / 10)) [2]))"
    and s2: "\<not> below_one (vec_add [0] (scale (1 * (8 / 10) * (8 / 10)) [2]))"
    and s3: "\<not> below_one (vec_add [0] (scale (1 * (8 / 10) * (8 / 10) * (8 / 10)) [2]))"
    and s4: "below_one (vec_add [0] (scale (1 * (8 / 10) * (8 / 10) * (8 / 10) * (8 / 10)) [2]))"
    by (simp_all add: below_one_def vec_add_def scale_def)
  have d: "domain_loop below_one [0] [2] (8 / 10) 1
      = Some (1 * (8 / 10) * (8 / 10) * (8 / 10) * (8 / 10))"
    using domain_loop_shrink[where dm = below_one and beta = "8 / 10", OF s0]
        domain_loop_shrink[where dm = below_one and beta = "8 / 10", OF s1]
        domain_loop_shrink[where dm = below_one and beta = "8 / 10", OF s2]
        domain_loop_shrink[where dm = below_one and beta = "8 / 10", OF s3]
        domain_loop_accept[where dm = below_one and beta = "8 / 10", OF s4]
    by (rule trans[OF trans[OF trans[OF trans]]])
  have "\<not> gap_f (vec_add [0] (scale (1 * (8 / 10) * (8 / 10) * (8 / 10) * (8 / 10)) [2]))
      > gap_f [0] + (1 / 10) * (1 * (8 / 10) * (8 / 10) * (8 / 10) * (8 / 10)) * dot (gap_df [0]) [2]"
    by (simp add: gap_f_def gap_df_def vec_add_def scale_def dot_def power2_eq_square)
  then have a: "armijo_loop gap_f gap_df [0] [2] (1 / 10) (8 / 10)
       (1 * (8 / 10) * (8 / 10) * (8 / 10) * (8 / 10)) []
     = Some (1 * (8 / 10) * (8 / 10) * (8 / 10) * (8 / 10),
         [] @ [vec_add [0] (scale (1 * (8 / 10) * (8 / 10) * (8 / 10) * (8 / 10)) [2]), [0]])"
    by (rule armijo_loop_accept)
  have "backtracking_line_search gap_f below_one gap_df [0] [2] (1 / 10) (8 / 10)
     = Some (1 * (8 / 10) * (8 / 10) * (8 / 10) * (8 / 10),
         [] @ [vec_add [0] (scale (1 * (8 / 10) * (8 / 10) * (8 / 10) * (8 / 10)) [2]), [0]])"
    unfolding backtracking_line_search_def d option.case by (rule a)
  also have "\<dots> = Some (256 / 625, [[512 / 625], [0]])"
    by (simp add: vec_add_def scale_def)
  finally show ?thesis .
qed

subsection \<open>The closures entry by entry\<close>

lemma sum_list_map2:
  "length u = m \<Longrightarrow> length v = m \<Longrightarrow> sum_list (map2 f u v) = (\<Sum>i<m. f (u ! i) (v ! i) :: real)"
proof -
  assume l: "length u = m" "length v = m"
  have "sum_list (map2 f u v) = (\<Sum>i = 0..<length (map2 f u v). map2 f u v ! i)"
    by (rule sum_list_sum_nth)
  also have "\<dots> = (\<Sum>i = 0..<m. f (u ! i) (v ! i))"
    using l by (intro sum.cong) auto
  finally show ?thesis by (simp add: atLeast0LessThan)
qed

lemma sum_list_upt: "sum_list (map g [0..<m]) = (\<Sum>i<m. g i :: real)"
  by (simp add: interv_sum_list_conv_sum_set_nat atLeast0LessThan)

lemma dot_nth: "length u = m \<Longrightarrow> length v = m \<Longrightarrow> dot u v = (\<Sum>i<m. u ! i * v ! i)"
  unfolding dot_def by (rule sum_list_map2)

lemma dot_scale_left: "dot (scale t c) x = t * dot c x"
proof (induction c arbitrary: x)
  case Nil
  then show ?case by (simp add: dot_def scale_def)
next
  case (Cons a c)
  show ?case
  proof (cases x)
    case Nil
    then show ?thesis by (simp add: dot_def scale_def)
  next
    case (Cons u x')
    have "dot (scale t c) x' = t * dot c x'" by (rule Cons.IH)
    then show ?thesis using Cons by (simp add: dot_def scale_def algebra_simps)
  qed
qed

lemma slacks:
  assumes "length b = nrows A" "\<forall>r \<in> set (rows A). length r = ncols A" "length x = ncols A"
  shows "vec_sub b (mat_vec A x) = map (slack A b x) [0..<nrows A]"
proof (rule nth_equalityI)
  show "length (vec_sub b (mat_vec A x)) = length (map (slack A b x) [0..<nrows A])"
    using assms(1) by (simp add: vec_sub_def mat_vec_def nrows_def)
next
  fix i assume "i < length (vec_sub b (mat_vec A x))"
  then have i: "i < nrows A" using assms(1) by (simp add: vec_sub_def mat_vec_def nrows_def)
  then have "length (rows A ! i) = ncols A" using assms(2) by (simp add: nrows_def)
  then have "dot (rows A ! i) x = (\<Sum>j<ncols A. rows A ! i ! j * x ! j)"
    using assms(3) by (rule dot_nth)
  then show "vec_sub b (mat_vec A x) ! i = map (slack A b x) [0..<nrows A] ! i"
    using i assms(1) by (simp add: vec_sub_def mat_vec_def nrows_def slack_def)
qed

lemma column_sum:
  "length v = nrows A \<Longrightarrow>
     sum_list (map2 f (map (\<lambda>r. r ! j) (rows A)) v) = (\<Sum>i<nrows A. f (rows A ! i ! j) (v ! i) :: real)"
proof -
  assume l: "length v = nrows A"
  have "sum_list (map2 f (map (\<lambda>r. r ! j) (rows A)) v)
      = (\<Sum>i<nrows A. f (map (\<lambda>r. r ! j) (rows A) ! i) (v ! i))"
    by (rule sum_list_map2) (simp_all add: nrows_def l[unfolded nrows_def])
  also have "\<dots> = (\<Sum>i<nrows A. f (rows A ! i ! j) (v ! i))"
    by (intro sum.cong) (simp_all add: nrows_def)
  finally show ?thesis .
qed

lemma f_formula:
  assumes "length c = ncols A" "length b = nrows A" "\<forall>r \<in> set (rows A). length r = ncols A"
    "length x = ncols A"
  shows "barrier_f t c A b x = spec_f t c A b x"
proof -
  have "dot c x = (\<Sum>j<ncols A. c ! j * x ! j)" using assms(1,4) by (rule dot_nth)
  then show ?thesis
    by (simp add: barrier_f_def spec_f_def dot_scale_left slacks[OF assms(2,3,4)]
        sum_list_upt comp_def)
qed

lemma in_domain_formula:
  assumes "length b = nrows A" "\<forall>r \<in> set (rows A). length r = ncols A" "length x = ncols A"
  shows "barrier_in_domain A b x \<longleftrightarrow> spec_in_domain A b x"
  by (simp add: barrier_in_domain_def spec_in_domain_def slacks[OF assms] list_all_iff)
     (auto simp: atLeast0LessThan)

lemma gradient_formula:
  assumes "length c = ncols A" "length b = nrows A" "\<forall>r \<in> set (rows A). length r = ncols A"
    "length x = ncols A"
  shows "barrier_df t c A b x = spec_gradient t c A b x"
proof (rule nth_equalityI)
  show "length (barrier_df t c A b x) = length (spec_gradient t c A b x)"
    using assms(1) by (simp add: length_barrier_df spec_gradient_def)
next
  fix j assume "j < length (barrier_df t c A b x)"
  then have j: "j < ncols A" using assms(1) by (simp add: length_barrier_df)
  have "sum_list (map2 (/) (map (\<lambda>r. r ! j) (rows A)) (map (slack A b x) [0..<nrows A]))
      = (\<Sum>i<nrows A. rows A ! i ! j / (map (slack A b x) [0..<nrows A] ! i))"
    by (rule column_sum) simp
  also have "\<dots> = (\<Sum>i<nrows A. rows A ! i ! j / slack A b x i)"
    by (intro sum.cong) simp_all
  finally show "barrier_df t c A b x ! j = spec_gradient t c A b x ! j"
    using j assms(1)
    by (simp add: barrier_df_def spec_gradient_def slacks[OF assms(2,3,4)] vec_add_def scale_def
        sum_axis1_def div_rows_def transpose_mat_def)
qed

lemma rows_transpose: "rows (transpose_mat A) = map (\<lambda>j. map (\<lambda>r. r ! j) (rows A)) [0..<ncols A]"
  by (simp add: transpose_mat_def)

lemma mat_mul_entries:
  assumes "\<forall>r \<in> set (rows M). length r = nrows N"
  shows "mat_mul M N =
     \<lparr>ncols = ncols N,
      rows = map (\<lambda>r. map (\<lambda>k. \<Sum>i<nrows N. r ! i * rows N ! i ! k) [0..<ncols N]) (rows M)\<rparr>"
proof -
  have "map (\<lambda>col. dot r col) (rows (transpose_mat N))
      = map (\<lambda>k. \<Sum>i<nrows N. r ! i * rows N ! i ! k) [0..<ncols N]"
    if "r \<in> set (rows M)" for r
  proof -
    have l: "length r = nrows N" using assms that by simp
    have "dot r (map (\<lambda>q. q ! k) (rows N)) = (\<Sum>i<nrows N. r ! i * rows N ! i ! k)" for k
    proof -
      have "dot r (map (\<lambda>q. q ! k) (rows N)) = (\<Sum>i<nrows N. r ! i * map (\<lambda>q. q ! k) (rows N) ! i)"
        using l by (intro dot_nth) (simp_all add: nrows_def)
      also have "\<dots> = (\<Sum>i<nrows N. r ! i * rows N ! i ! k)"
        by (intro sum.cong) (simp_all add: nrows_def)
      finally show ?thesis .
    qed
    then show ?thesis by (simp add: rows_transpose comp_def)
  qed
  then show ?thesis by (simp add: mat_mul_def)
qed

lemma hessian_formula:
  assumes "length b = nrows A" "\<forall>r \<in> set (rows A). length r = ncols A" "length x = ncols A"
  shows "barrier_ddf A b x = spec_hessian A b x"
proof -
  let ?sq = "map (\<lambda>i. (slack A b x i)\<^sup>2) [0..<nrows A]"
  let ?M = "div_rows (transpose_mat A) ?sq"
  have sq: "map (\<lambda>v. v\<^sup>2) (vec_sub b (mat_vec A x)) = ?sq"
    by (simp add: slacks[OF assms] comp_def)
  have rowsM: "rows ?M = map (\<lambda>j. map2 (/) (map (\<lambda>r. r ! j) (rows A)) ?sq) [0..<ncols A]"
    by (simp add: div_rows_def rows_transpose comp_def)
  have len: "\<forall>r \<in> set (rows ?M). length r = nrows A"
    unfolding rowsM by (auto simp: nrows_def)
  have entry: "map2 (/) (map (\<lambda>r. r ! j) (rows A)) ?sq ! i = rows A ! i ! j / (slack A b x i)\<^sup>2"
    if "i < nrows A" for i j
    using that by (simp add: nrows_def)
  have "barrier_ddf A b x = mat_mul ?M A"
    unfolding barrier_ddf_def sq ..
  also have "\<dots> =
     \<lparr>ncols = ncols A,
      rows = map (\<lambda>r. map (\<lambda>k. \<Sum>i<nrows A. r ! i * rows A ! i ! k) [0..<ncols A]) (rows ?M)\<rparr>"
    by (rule mat_mul_entries[OF len])
  also have "\<dots> =
     \<lparr>ncols = ncols A,
      rows = map (\<lambda>j. map (\<lambda>k. \<Sum>i<nrows A.
                 map2 (/) (map (\<lambda>r. r ! j) (rows A)) ?sq ! i * rows A ! i ! k) [0..<ncols A])
               [0..<ncols A]\<rparr>"
    unfolding rowsM by (simp add: comp_def)
  also have "\<dots> = spec_hessian A b x"
  proof -
    have "(\<Sum>i<nrows A. map2 (/) (map (\<lambda>r. r ! j) (rows A)) ?sq ! i * rows A ! i ! k)
        = (\<Sum>i<nrows A. rows A ! i ! j * rows A ! i ! k / (slack A b x i)\<^sup>2)" for j k
    proof (rule sum.cong)
      fix i assume "i \<in> {..<nrows A}"
      then have "i < nrows A" by simp
      from entry[OF this, of j]
      show "map2 (/) (map (\<lambda>r. r ! j) (rows A)) ?sq ! i * rows A ! i ! k
          = rows A ! i ! j * rows A ! i ! k / (slack A b x i)\<^sup>2"
        by simp
    qed simp
    then show ?thesis unfolding spec_hessian_def by simp
  qed
  finally show ?thesis .
qed

lemma diag_formula:
  "spec_hessian A b x =
     mat_mul (mat_mul (transpose_mat A) (diag_mat (map (\<lambda>i. 1 / (slack A b x i)\<^sup>2) [0..<nrows A]))) A"
proof -
  let ?d = "map (\<lambda>i. 1 / (slack A b x i)\<^sup>2) [0..<nrows A]"
  let ?D = "diag_mat ?d"
  have nD: "nrows ?D = nrows A" "ncols ?D = nrows A" by (simp_all add: diag_mat_def nrows_def)
  have lenT: "\<forall>r \<in> set (rows (transpose_mat A)). length r = nrows ?D"
    unfolding nD(1) rows_transpose by (auto simp: nrows_def)
  have TD: "mat_mul (transpose_mat A) ?D =
     \<lparr>ncols = nrows A,
      rows = map (\<lambda>j. map (\<lambda>l. rows A ! l ! j / (slack A b x l)\<^sup>2) [0..<nrows A]) [0..<ncols A]\<rparr>"
  proof -
    have "(\<Sum>i<nrows A. map (\<lambda>r. r ! j) (rows A) ! i * rows ?D ! i ! l)
        = rows A ! l ! j / (slack A b x l)\<^sup>2" if l: "l < nrows A" for j l
    proof -
      have "(\<Sum>i<nrows A. map (\<lambda>r. r ! j) (rows A) ! i * rows ?D ! i ! l)
          = (\<Sum>i<nrows A. if i = l then rows A ! l ! j / (slack A b x l)\<^sup>2 else 0)"
        using l by (intro sum.cong) (auto simp: diag_mat_def nrows_def)
      also have "\<dots> = rows A ! l ! j / (slack A b x l)\<^sup>2"
        using l by simp
      finally show ?thesis .
    qed
    then have "map (\<lambda>l. \<Sum>i<nrows A. map (\<lambda>r. r ! j) (rows A) ! i * rows ?D ! i ! l) [0..<nrows A]
        = map (\<lambda>l. rows A ! l ! j / (slack A b x l)\<^sup>2) [0..<nrows A]" for j
      by (intro map_cong) simp_all
    then show ?thesis
      by (simp add: mat_mul_entries[OF lenT] nD rows_transpose comp_def)
  qed
  have len2: "\<forall>r \<in> set (rows (mat_mul (transpose_mat A) ?D)). length r = nrows A"
    unfolding TD by auto
  have "mat_mul (mat_mul (transpose_mat A) ?D) A =
     \<lparr>ncols = ncols A,
      rows = map (\<lambda>r. map (\<lambda>k. \<Sum>i<nrows A. r ! i * rows A ! i ! k) [0..<ncols A])
               (rows (mat_mul (transpose_mat A) ?D))\<rparr>"
    by (rule mat_mul_entries[OF len2])
  also have "\<dots> = spec_hessian A b x"
  proof -
    have "(\<Sum>i<nrows A. map (\<lambda>l. rows A ! l ! j / (slack A b x l)\<^sup>2) [0..<nrows A] ! i * rows A ! i ! k)
        = (\<Sum>i<nrows A. rows A ! i ! j * rows A ! i ! k / (slack A b x i)\<^sup>2)" for j k
      by (intro sum.cong) simp_all
    then show ?thesis by (simp add: spec_hessian_def TD comp_def)
  qed
  finally show ?thesis by simp
qed

subsection \<open>The run on the store and the run on values\<close>

text \<open>
  A run on the store changes no array but the iterate, allocates every snapshot freshly,
  and computes what the run on values computes: read in the final store, its results are
  the results of the functions of the first embedding.
\<close>

lemma length_iadd: "length (iadd h a v) = length h"
  by (simp add: iadd_def)

lemma iadd_other: "a' \<noteq> a \<Longrightarrow> iadd h a v ! a' = h ! a'"
  by (simp add: iadd_def)

lemma copy_array_eq: "fst (copy_array h a) = h @ [h ! a]" "snd (copy_array h a) = length h"
  by (simp_all add: copy_array_def)

lemma unchanged_except_refl: "unchanged_except h xa h"
  by (simp add: unchanged_except_def)

lemma unchanged_except_trans:
  "unchanged_except h xa h1 \<Longrightarrow> unchanged_except h1 xa h2 \<Longrightarrow> unchanged_except h xa h2"
  by (auto simp: unchanged_except_def)

lemma unchanged_except_step:
  "xa < length h \<Longrightarrow> unchanged_except h xa (fst (copy_array (iadd h xa v) xa))"
  by (auto simp: unchanged_except_def copy_array_eq length_iadd nth_append iadd_other)

lemma unchanged_except_copy: "unchanged_except h xa (fst (copy_array h a))"
  by (auto simp: unchanged_except_def copy_array_eq nth_append)

lemma deref_unchanged:
  "unchanged_except h xa h' \<Longrightarrow> s < length h \<Longrightarrow> s \<noteq> xa \<Longrightarrow> deref h' s = deref h s"
  by (simp add: unchanged_except_def deref_def)

lemma map_deref_unchanged:
  "unchanged_except h xa h' \<Longrightarrow> \<forall>s \<in> set as. s < length h \<and> s \<noteq> xa \<Longrightarrow>
     map (deref h') as = map (deref h) as"
  by (simp add: deref_unchanged)

lemma newton_loop_h_refines:
  assumes run: "newton_loop_h solve f dm df ddf eps xa h steps = Some r"
  shows "\<forall>F DM DF DDF. xa < length h \<longrightarrow> (\<forall>s \<in> set steps. s < length h \<and> s \<noteq> xa) \<longrightarrow>
     (\<forall>g. unchanged_except h xa g \<longrightarrow> f g = F \<and> dm g = DM \<and> df g = DF \<and> ddf g = DDF) \<longrightarrow>
     (\<forall>h' xr steps'. r = Inr (h', xr, steps') \<longrightarrow>
        xr = xa \<and> unchanged_except h xa h' \<and>
        (\<exists>new. steps' = steps @ new \<and> snapshots (length h) h' xa new) \<and>
        newton_loop solve F DM DF DDF eps (deref h xa) (map (deref h) steps)
          = Some (Inr (deref h' xa, map (deref h') steps')))"
proof (rule newton_loop_h.raw_induct[OF _ run, where P = "\<lambda>solve f dm df ddf eps xa h steps r.
     \<forall>F DM DF DDF. xa < length h \<longrightarrow> (\<forall>s \<in> set steps. s < length h \<and> s \<noteq> xa) \<longrightarrow>
     (\<forall>g. unchanged_except h xa g \<longrightarrow> f g = F \<and> dm g = DM \<and> df g = DF \<and> ddf g = DDF) \<longrightarrow>
     (\<forall>h' xr steps'. r = Inr (h', xr, steps') \<longrightarrow>
        xr = xa \<and> unchanged_except h xa h' \<and>
        (\<exists>new. steps' = steps @ new \<and> snapshots (length h) h' xa new) \<and>
        newton_loop solve F DM DF DDF eps (deref h xa) (map (deref h) steps)
          = Some (Inr (deref h' xa, map (deref h') steps')))"])
  fix loop :: "solver \<Rightarrow> (heap \<Rightarrow> vec \<Rightarrow> real) \<Rightarrow> (heap \<Rightarrow> vec \<Rightarrow> bool) \<Rightarrow> (heap \<Rightarrow> vec \<Rightarrow> vec)
     \<Rightarrow> (heap \<Rightarrow> vec \<Rightarrow> mat) \<Rightarrow> real \<Rightarrow> addr \<Rightarrow> heap \<Rightarrow> addr list
     \<Rightarrow> (error + heap \<times> addr \<times> addr list) option"
  fix solve f dm df ddf eps xa h steps r
  assume IH: "\<And>solve f dm df ddf eps xa h steps r. loop solve f dm df ddf eps xa h steps = Some r \<Longrightarrow>
     \<forall>F DM DF DDF. xa < length h \<longrightarrow> (\<forall>s \<in> set steps. s < length h \<and> s \<noteq> xa) \<longrightarrow>
     (\<forall>g. unchanged_except h xa g \<longrightarrow> f g = F \<and> dm g = DM \<and> df g = DF \<and> ddf g = DDF) \<longrightarrow>
     (\<forall>h' xr steps'. r = Inr (h', xr, steps') \<longrightarrow>
        xr = xa \<and> unchanged_except h xa h' \<and>
        (\<exists>new. steps' = steps @ new \<and> snapshots (length h) h' xa new) \<and>
        newton_loop solve F DM DF DDF eps (deref h xa) (map (deref h) steps)
          = Some (Inr (deref h' xa, map (deref h') steps')))"
    and body: "(case solve (ddf h (deref h xa)) (df h (deref h xa)) of
        Inl e \<Rightarrow> Some (Inl e)
      | Inr y \<Rightarrow>
          (let dx = vec_neg y;
               lambda_sq = dot (vec_neg (df h (deref h xa))) dx
           in if lambda_sq / 2 \<le> eps then Some (Inr (h, xa, steps))
              else (case backtracking_line_search (f h) (dm h) (df h) (deref h xa) dx
                          (1 / 10) (8 / 10) of
                      None \<Rightarrow> None
                    | Some (t, calls) \<Rightarrow>
                        loop solve f dm df ddf eps xa
                          (fst (copy_array (iadd h xa (scale t dx)) xa))
                          (steps @ [snd (copy_array (iadd h xa (scale t dx)) xa)])))) = Some r"
  show "\<forall>F DM DF DDF. xa < length h \<longrightarrow> (\<forall>s \<in> set steps. s < length h \<and> s \<noteq> xa) \<longrightarrow>
     (\<forall>g. unchanged_except h xa g \<longrightarrow> f g = F \<and> dm g = DM \<and> df g = DF \<and> ddf g = DDF) \<longrightarrow>
     (\<forall>h' xr steps'. r = Inr (h', xr, steps') \<longrightarrow>
        xr = xa \<and> unchanged_except h xa h' \<and>
        (\<exists>new. steps' = steps @ new \<and> snapshots (length h) h' xa new) \<and>
        newton_loop solve F DM DF DDF eps (deref h xa) (map (deref h) steps)
          = Some (Inr (deref h' xa, map (deref h') steps')))"
  proof (intro allI impI)
    fix F DM DF DDF h' xr steps'
    assume xa: "xa < length h"
      and st: "\<forall>s \<in> set steps. s < length h \<and> s \<noteq> xa"
      and stable: "\<forall>g. unchanged_except h xa g \<longrightarrow> f g = F \<and> dm g = DM \<and> df g = DF \<and> ddf g = DDF"
      and r: "r = Inr (h', xr, steps')"
    have here: "f h = F" "dm h = DM" "df h = DF" "ddf h = DDF"
      using stable unchanged_except_refl by blast+
    let ?x = "deref h xa"
    show "xr = xa \<and> unchanged_except h xa h' \<and>
        (\<exists>new. steps' = steps @ new \<and> snapshots (length h) h' xa new) \<and>
        newton_loop solve F DM DF DDF eps (deref h xa) (map (deref h) steps)
          = Some (Inr (deref h' xa, map (deref h') steps'))"
    proof (cases "solve (DDF ?x) (DF ?x)")
      case (Inl e)
      then show ?thesis using body r here by simp
    next
      case (Inr y)
      show ?thesis
      proof (cases "dot (vec_neg (DF ?x)) (vec_neg y) / 2 \<le> eps")
        case True
        then have "r = Inr (h, xa, steps)" using body Inr here by (simp add: Let_def)
        with r have eq: "h' = h" "xr = xa" "steps' = steps" by simp_all
        have "newton_loop solve F DM DF DDF eps ?x (map (deref h) steps)
            = Some (Inr (?x, map (deref h) steps))"
          by (rule newton_loop_stop[where y = y]) (rule Inr, rule True)
        then show ?thesis
          using eq by (simp add: unchanged_except_refl snapshots_def)
      next
        case False
        then obtain t calls where
          ls: "backtracking_line_search F DM DF ?x (vec_neg y) (1 / 10) (8 / 10) = Some (t, calls)"
          and rec: "loop solve f dm df ddf eps xa
                      (fst (copy_array (iadd h xa (scale t (vec_neg y))) xa))
                      (steps @ [snd (copy_array (iadd h xa (scale t (vec_neg y))) xa)]) = Some r"
          using body Inr here by (auto simp: Let_def split: option.splits)
        let ?h2 = "fst (copy_array (iadd h xa (scale t (vec_neg y))) xa)"
        let ?s = "snd (copy_array (iadd h xa (scale t (vec_neg y))) xa)"
        let ?x' = "vec_add ?x (scale t (vec_neg y))"
        have s: "?s = length h" by (simp add: copy_array_eq length_iadd)
        have len2: "length ?h2 = Suc (length h)" by (simp add: copy_array_eq length_iadd)
        have u: "unchanged_except h xa ?h2" using xa by (rule unchanged_except_step)
        have x2: "deref ?h2 xa = ?x'"
          using xa by (simp add: copy_array_eq deref_def iadd_def nth_append)
        have s2: "deref ?h2 ?s = ?x'"
          using xa by (simp add: copy_array_eq deref_def iadd_def nth_append)
        have old: "map (deref ?h2) steps = map (deref h) steps"
          using u st by (rule map_deref_unchanged)
        have pre1: "xa < length ?h2" using xa len2 by simp
        have pre2: "\<forall>q \<in> set (steps @ [?s]). q < length ?h2 \<and> q \<noteq> xa"
          using st xa s len2 by auto
        have pre3: "\<forall>g. unchanged_except ?h2 xa g \<longrightarrow> f g = F \<and> dm g = DM \<and> df g = DF \<and> ddf g = DDF"
          using stable u unchanged_except_trans by blast
        from IH[OF rec, THEN spec[where x = F], THEN spec[where x = DM], THEN spec[where x = DF],
            THEN spec[where x = DDF], THEN mp, OF pre1, THEN mp, OF pre2, THEN mp, OF pre3,
            THEN spec[where x = h'], THEN spec[where x = xr], THEN spec[where x = steps'],
            THEN mp, OF r]
        obtain new where res: "xr = xa" "unchanged_except ?h2 xa h'"
          "steps' = (steps @ [?s]) @ new" "snapshots (length ?h2) h' xa new"
          and pure: "newton_loop solve F DM DF DDF eps (deref ?h2 xa) (map (deref ?h2) (steps @ [?s]))
            = Some (Inr (deref h' xa, map (deref h') steps'))"
          by blast
        have u': "unchanged_except h xa h'" using u res(2) by (rule unchanged_except_trans)
        have "snapshots (length h) h' xa (?s # new)"
          using res(2,4) xa s len2 by (auto simp: snapshots_def unchanged_except_def)
        then have new: "\<exists>new'. steps' = steps @ new' \<and> snapshots (length h) h' xa new'"
          using res(3) by auto
        have "newton_loop solve F DM DF DDF eps ?x (map (deref h) steps)
            = newton_loop solve F DM DF DDF eps ?x' (map (deref h) steps @ [?x'])"
          by (rule newton_loop_step[where y = y and calls = calls]) (rule Inr, rule False, rule ls)
        also have "\<dots> = newton_loop solve F DM DF DDF eps (deref ?h2 xa)
            (map (deref ?h2) (steps @ [?s]))"
          by (simp only: map_append list.map x2 s2 old)
        also note pure
        finally show ?thesis using res(1) u' new by simp
      qed
    qed
  qed
qed

lemma newton_loop_h_result:
  assumes run: "newton_loop_h solve f dm df ddf eps xa h steps = Some (Inr (h', xr, steps'))"
    and xa: "xa < length h"
    and st: "\<forall>s \<in> set steps. s < length h \<and> s \<noteq> xa"
    and stable: "\<forall>g. unchanged_except h xa g \<longrightarrow> f g = F \<and> dm g = DM \<and> df g = DF \<and> ddf g = DDF"
  shows "xr = xa \<and> unchanged_except h xa h' \<and>
        (\<exists>new. steps' = steps @ new \<and> snapshots (length h) h' xa new) \<and>
        newton_loop solve F DM DF DDF eps (deref h xa) (map (deref h) steps)
          = Some (Inr (deref h' xa, map (deref h') steps'))"
  by (rule newton_loop_h_refines[OF run, THEN spec[where x = F], THEN spec[where x = DM],
        THEN spec[where x = DF], THEN spec[where x = DDF], THEN mp, OF xa, THEN mp, OF st,
        THEN mp, OF stable, THEN spec[where x = h'], THEN spec[where x = xr],
        THEN spec[where x = steps'], THEN mp, OF refl])

lemma barrier_stage_h_refines:
  assumes st: "barrier_stage_h fl solve ca Aa ba mu (h, t, xa, steps, ns) = Some (Inr s')"
    and pre: "ca < L" "Aa < L" "ba < L" "L \<le> xa" "xa < length h"
    and tr: "snapshots L h xa (steps @ concat ns)"
  shows "\<exists>h2 steps2 ns2. s' = (h2, rnd_mul fl (t * mu), xa, steps2, ns2) \<and> unchanged_except h xa h2 \<and>
     xa < length h2 \<and> snapshots L h2 xa (steps2 @ concat ns2) \<and>
     barrier_stage fl solve (deref h ca) (mat_of (h ! Aa)) (deref h ba) mu
         (t, deref h xa, map (deref h) steps, map (map (deref h)) ns)
       = Some (Inr (rnd_mul fl (t * mu), deref h2 xa, map (deref h2) steps2, map (map (deref h2)) ns2))"
proof -
  let ?c = "deref h ca" and ?A = "mat_of (h ! Aa)" and ?b = "deref h ba"
  let ?f = "\<lambda>g. barrier_f t (deref g ca) (mat_of (g ! Aa)) (deref g ba)"
  let ?dm = "\<lambda>g. barrier_in_domain (mat_of (g ! Aa)) (deref g ba)"
  let ?df = "\<lambda>g. barrier_df t (deref g ca) (mat_of (g ! Aa)) (deref g ba)"
  let ?ddf = "\<lambda>g. barrier_ddf (mat_of (g ! Aa)) (deref g ba)"
  let ?h0 = "fst (copy_array h xa)"
  from st obtain h1 xa' trace where
    nm: "newtons_method_h solve ?f ?dm ?df ?ddf xa h None = Some (Inr (h1, xa', trace))"
    and s': "s' = (fst (copy_array h1 xa'), rnd_mul fl (t * mu), xa', steps @ [snd (copy_array h1 xa')],
                   ns @ [trace])"
    by (auto simp: barrier_stage_h_def split: option.splits sum.splits)
  from nm have run: "newton_loop_h solve ?f ?dm ?df ?ddf (1 / 10 ^ 4) xa ?h0 [length h]
      = Some (Inr (h1, xa', trace))"
    by (simp add: newtons_method_h_def copy_array_eq)
  have len0: "length ?h0 = Suc (length h)" by (simp add: copy_array_eq)
  have u0: "unchanged_except h xa ?h0" by (rule unchanged_except_copy)
  have pre1: "xa < length ?h0" using pre(5) len0 by simp
  have pre2: "\<forall>s \<in> set [length h]. s < length ?h0 \<and> s \<noteq> xa" using pre(5) len0 by simp
  have pre3: "\<forall>g. unchanged_except ?h0 xa g \<longrightarrow>
      ?f g = barrier_f t ?c ?A ?b \<and> ?dm g = barrier_in_domain ?A ?b \<and>
      ?df g = barrier_df t ?c ?A ?b \<and> ?ddf g = barrier_ddf ?A ?b"
  proof (intro allI impI)
    fix g assume "unchanged_except ?h0 xa g"
    with u0 have g: "unchanged_except h xa g" by (rule unchanged_except_trans)
    have "g ! ca = h ! ca" "g ! Aa = h ! Aa" "g ! ba = h ! ba"
      using g pre by (simp_all add: unchanged_except_def)
    then show "?f g = barrier_f t ?c ?A ?b \<and> ?dm g = barrier_in_domain ?A ?b \<and>
      ?df g = barrier_df t ?c ?A ?b \<and> ?ddf g = barrier_ddf ?A ?b"
      by (simp add: deref_def)
  qed
  note big = newton_loop_h_result[OF run pre1 pre2 pre3]
  from big have res1: "xa' = xa" by (rule conjunct1)
  from big have res2: "unchanged_except ?h0 xa h1" by (rule conjunct2[THEN conjunct1])
  from big have "\<exists>new. trace = [length h] @ new \<and> snapshots (length ?h0) h1 xa new"
    by (rule conjunct2[THEN conjunct2, THEN conjunct1])
  then obtain new where res3: "trace = [length h] @ new"
    and res4: "snapshots (length ?h0) h1 xa new" by (elim exE conjE)
  from big have pure: "newton_loop solve (barrier_f t ?c ?A ?b) (barrier_in_domain ?A ?b)
        (barrier_df t ?c ?A ?b) (barrier_ddf ?A ?b) (1 / 10 ^ 4) (deref ?h0 xa)
        (map (deref ?h0) [length h]) = Some (Inr (deref h1 xa, map (deref h1) trace))"
    by (rule conjunct2[THEN conjunct2, THEN conjunct2])
  let ?h2 = "fst (copy_array h1 xa)"
  let ?steps2 = "steps @ [length h1]"
  let ?ns2 = "ns @ [trace]"
  have s'': "s' = (?h2, rnd_mul fl (t * mu), xa, ?steps2, ?ns2)"
    using s' res1 by (simp add: copy_array_eq)
  have u1: "unchanged_except h xa h1" using u0 res2 by (rule unchanged_except_trans)
  have u2: "unchanged_except h xa ?h2"
    using u1 unchanged_except_copy by (rule unchanged_except_trans)
  have len1: "length ?h0 \<le> length h1" using res2 by (simp add: unchanged_except_def)
  have len2: "length ?h2 = Suc (length h1)" by (simp add: copy_array_eq)
  have xa2: "xa < length ?h2" using pre1 len1 len2 by simp
  have old: "\<forall>s \<in> set (steps @ concat ns). L \<le> s \<and> s < length h \<and> s \<noteq> xa"
    and dold: "distinct (steps @ concat ns)"
    using tr by (simp_all add: snapshots_def)
  have tr_in: "\<forall>s \<in> set trace. length h \<le> s \<and> s < length h1 \<and> s \<noteq> xa"
    and dtr: "distinct trace"
    using res3 res4 len0 len1 pre(5) by (auto simp: snapshots_def)
  have snap: "snapshots L ?h2 xa (?steps2 @ concat ?ns2)"
    unfolding snapshots_def
  proof
    have parts: "set (?steps2 @ concat ?ns2) = set (steps @ concat ns) \<union> {length h1} \<union> set trace"
      by auto
    show "\<forall>s \<in> set (?steps2 @ concat ?ns2). L \<le> s \<and> s < length ?h2 \<and> s \<noteq> xa"
      unfolding parts
    proof
      fix s assume "s \<in> set (steps @ concat ns) \<union> {length h1} \<union> set trace"
      then consider "s \<in> set (steps @ concat ns)" | "s = length h1" | "s \<in> set trace" by blast
      then show "L \<le> s \<and> s < length ?h2 \<and> s \<noteq> xa"
      proof cases
        case 1
        with old have "L \<le> s \<and> s < length h \<and> s \<noteq> xa" by blast
        then show ?thesis using len0 len1 len2 by simp
      next
        case 2
        then show ?thesis using len0 len1 len2 pre(4,5) by simp
      next
        case 3
        with tr_in have "length h \<le> s \<and> s < length h1 \<and> s \<noteq> xa" by blast
        then show ?thesis using len2 pre(4,5) by simp
      qed
    qed
    have "set (steps @ concat ns) \<inter> set trace = {}" using old tr_in by fastforce
    moreover have "length h1 \<notin> set (steps @ concat ns)" using old len0 len1 by fastforce
    moreover have "length h1 \<notin> set trace" using tr_in by fastforce
    ultimately show "distinct (?steps2 @ concat ?ns2)" using dold dtr by auto
  qed
  have d0: "deref ?h0 xa = deref h xa" "deref ?h0 (length h) = deref h xa"
    using pre(5) by (simp_all add: copy_array_eq deref_def nth_append)
  from pure have nmp: "newtons_method solve (barrier_f t ?c ?A ?b) (barrier_in_domain ?A ?b)
        (barrier_df t ?c ?A ?b) (barrier_ddf ?A ?b) (deref h xa) None
      = Some (Inr (deref h1 xa, map (deref h1) trace))"
    by (simp add: newtons_method_def d0)
  have x2: "deref ?h2 xa = deref h1 xa"
    using pre1 len1 by (simp add: copy_array_eq deref_def nth_append)
  have k2: "deref ?h2 (length h1) = deref h1 xa"
    by (simp add: copy_array_eq deref_def)
  have os: "map (deref ?h2) steps = map (deref h) steps"
    using u2 old by (intro map_deref_unchanged) auto
  have ons: "map (map (deref ?h2)) ns = map (map (deref h)) ns"
  proof (rule map_cong[OF refl])
    fix tr0 assume "tr0 \<in> set ns"
    then have "\<forall>s \<in> set tr0. s < length h \<and> s \<noteq> xa" using old by auto
    with u2 show "map (deref ?h2) tr0 = map (deref h) tr0" by (rule map_deref_unchanged)
  qed
  have otr: "map (deref ?h2) trace = map (deref h1) trace"
    using tr_in by (intro map_cong) (simp_all add: copy_array_eq deref_def nth_append)
  have "barrier_stage fl solve ?c ?A ?b mu (t, deref h xa, map (deref h) steps, map (map (deref h)) ns)
       = Some (Inr (rnd_mul fl (t * mu), deref h1 xa, map (deref h) steps @ [deref h1 xa],
            map (map (deref h)) ns @ [map (deref h1) trace]))"
    by (simp add: barrier_stage_def nmp)
  also have "\<dots> = Some (Inr (rnd_mul fl (t * mu), deref ?h2 xa, map (deref ?h2) ?steps2,
            map (map (deref ?h2)) ?ns2))"
    by (simp add: x2 k2 os ons otr)
  finally show ?thesis using s'' u2 xa2 snap by blast
qed

lemma barrier_loop_h_refines:
  assumes run: "barrier_loop_h fl solve ca Aa ba m eps mu phase_one s = Some r"
  shows "\<forall>L h t xa steps ns. s = (h, t, xa, steps, ns) \<longrightarrow>
     ca < L \<longrightarrow> Aa < L \<longrightarrow> ba < L \<longrightarrow> L \<le> xa \<longrightarrow> xa < length h \<longrightarrow>
     m = nrows (mat_of (h ! Aa)) \<longrightarrow> snapshots L h xa (steps @ concat ns) \<longrightarrow>
     (\<forall>h' xr steps' ns'. r = Inr (h', xr, steps', ns') \<longrightarrow>
        xr = xa \<and> unchanged_except h xa h' \<and> xa < length h' \<and>
        snapshots L h' xa (steps' @ concat ns') \<and>
        barrier_loop fl solve (deref h ca) (mat_of (h ! Aa)) (deref h ba) eps mu phase_one
            (t, deref h xa, map (deref h) steps, map (map (deref h)) ns)
          = Some (Inr (view (h', xr, steps', ns'))))"
proof (rule barrier_loop_h.raw_induct[OF _ run, where P = "\<lambda>fl solve ca Aa ba m eps mu phase_one s r.
     \<forall>L h t xa steps ns. s = (h, t, xa, steps, ns) \<longrightarrow>
     ca < L \<longrightarrow> Aa < L \<longrightarrow> ba < L \<longrightarrow> L \<le> xa \<longrightarrow> xa < length h \<longrightarrow>
     m = nrows (mat_of (h ! Aa)) \<longrightarrow> snapshots L h xa (steps @ concat ns) \<longrightarrow>
     (\<forall>h' xr steps' ns'. r = Inr (h', xr, steps', ns') \<longrightarrow>
        xr = xa \<and> unchanged_except h xa h' \<and> xa < length h' \<and>
        snapshots L h' xa (steps' @ concat ns') \<and>
        barrier_loop fl solve (deref h ca) (mat_of (h ! Aa)) (deref h ba) eps mu phase_one
            (t, deref h xa, map (deref h) steps, map (map (deref h)) ns)
          = Some (Inr (view (h', xr, steps', ns'))))"])
  fix loop :: "rounding \<Rightarrow> solver \<Rightarrow> addr \<Rightarrow> addr \<Rightarrow> addr \<Rightarrow> nat \<Rightarrow> real \<Rightarrow> real \<Rightarrow> bool \<Rightarrow> barrier_state_h
     \<Rightarrow> (error + heap \<times> addr \<times> addr list \<times> addr list list) option"
  fix fl solve ca Aa ba m eps mu phase_one s r
  assume IH: "\<And>fl solve ca Aa ba m eps mu phase_one s r.
     loop fl solve ca Aa ba m eps mu phase_one s = Some r \<Longrightarrow>
     \<forall>L h t xa steps ns. s = (h, t, xa, steps, ns) \<longrightarrow>
     ca < L \<longrightarrow> Aa < L \<longrightarrow> ba < L \<longrightarrow> L \<le> xa \<longrightarrow> xa < length h \<longrightarrow>
     m = nrows (mat_of (h ! Aa)) \<longrightarrow> snapshots L h xa (steps @ concat ns) \<longrightarrow>
     (\<forall>h' xr steps' ns'. r = Inr (h', xr, steps', ns') \<longrightarrow>
        xr = xa \<and> unchanged_except h xa h' \<and> xa < length h' \<and>
        snapshots L h' xa (steps' @ concat ns') \<and>
        barrier_loop fl solve (deref h ca) (mat_of (h ! Aa)) (deref h ba) eps mu phase_one
            (t, deref h xa, map (deref h) steps, map (map (deref h)) ns)
          = Some (Inr (view (h', xr, steps', ns'))))"
    and body: "(case loop_test fl phase_one m eps (fst (snd s)) (deref (fst s) (fst (snd (snd s)))) of
        Inl e \<Rightarrow> Some (Inl e)
      | Inr go \<Rightarrow>
          if go
          then (case barrier_stage_h fl solve ca Aa ba mu s of
                  None \<Rightarrow> None
                | Some (Inl e) \<Rightarrow> Some (Inl e)
                | Some (Inr s') \<Rightarrow> loop fl solve ca Aa ba m eps mu phase_one s')
          else Some (Inr (fst s, snd (snd s)))) = Some r"
  show "\<forall>L h t xa steps ns. s = (h, t, xa, steps, ns) \<longrightarrow>
     ca < L \<longrightarrow> Aa < L \<longrightarrow> ba < L \<longrightarrow> L \<le> xa \<longrightarrow> xa < length h \<longrightarrow>
     m = nrows (mat_of (h ! Aa)) \<longrightarrow> snapshots L h xa (steps @ concat ns) \<longrightarrow>
     (\<forall>h' xr steps' ns'. r = Inr (h', xr, steps', ns') \<longrightarrow>
        xr = xa \<and> unchanged_except h xa h' \<and> xa < length h' \<and>
        snapshots L h' xa (steps' @ concat ns') \<and>
        barrier_loop fl solve (deref h ca) (mat_of (h ! Aa)) (deref h ba) eps mu phase_one
            (t, deref h xa, map (deref h) steps, map (map (deref h)) ns)
          = Some (Inr (view (h', xr, steps', ns'))))"
  proof (intro allI impI)
    fix L h t xa steps ns h' xr steps' ns'
    assume s: "s = (h, t, xa, steps, ns)"
      and pre: "ca < L" "Aa < L" "ba < L" "L \<le> xa" "xa < length h"
      and m: "m = nrows (mat_of (h ! Aa))"
      and snap: "snapshots L h xa (steps @ concat ns)"
      and r: "r = Inr (h', xr, steps', ns')"
    let ?c = "deref h ca" and ?A = "mat_of (h ! Aa)" and ?b = "deref h ba"
    let ?ps = "(t, deref h xa, map (deref h) steps, map (map (deref h)) ns)"
    have test: "loop_test fl phase_one (nrows ?A) eps (fst ?ps) (fst (snd ?ps))
        = loop_test fl phase_one m eps (fst (snd s)) (deref (fst s) (fst (snd (snd s))))"
      by (simp add: s m)
    show "xr = xa \<and> unchanged_except h xa h' \<and> xa < length h' \<and>
        snapshots L h' xa (steps' @ concat ns') \<and>
        barrier_loop fl solve ?c ?A ?b eps mu phase_one ?ps = Some (Inr (view (h', xr, steps', ns')))"
    proof (cases "loop_test fl phase_one m eps (fst (snd s)) (deref (fst s) (fst (snd (snd s))))")
      case (Inl e)
      then show ?thesis using body r by simp
    next
      case (Inr go)
      show ?thesis
      proof (cases go)
        case False
        then have "r = Inr (fst s, snd (snd s))" using body Inr by simp
        with r s have eq: "h' = h" "xr = xa" "steps' = steps" "ns' = ns" by simp_all
        have "barrier_loop fl solve ?c ?A ?b eps mu phase_one ?ps = Some (Inr (snd ?ps))"
          by (subst barrier_loop.simps) (simp only: test Inr False sum.case if_False)
        then show ?thesis
          using eq pre(5) snap by (simp add: unchanged_except_refl view_def)
      next
        case True
        then obtain s' where st: "barrier_stage_h fl solve ca Aa ba mu s = Some (Inr s')"
          and rec: "loop fl solve ca Aa ba m eps mu phase_one s' = Some r"
          using body Inr r by (auto split: option.splits sum.splits)
        from barrier_stage_h_refines[OF st[unfolded s] pre snap]
        obtain h2 steps2 ns2 where s2: "s' = (h2, rnd_mul fl (t * mu), xa, steps2, ns2)"
          and u2: "unchanged_except h xa h2" and xa2: "xa < length h2"
          and snap2: "snapshots L h2 xa (steps2 @ concat ns2)"
          and pst: "barrier_stage fl solve ?c ?A ?b mu ?ps
             = Some (Inr (rnd_mul fl (t * mu), deref h2 xa, map (deref h2) steps2, map (map (deref h2)) ns2))"
          by blast
        have same: "h2 ! ca = h ! ca" "h2 ! Aa = h ! Aa" "h2 ! ba = h ! ba"
          using u2 pre by (simp_all add: unchanged_except_def)
        have m2: "m = nrows (mat_of (h2 ! Aa))" using m same by simp
        from IH[OF rec, THEN spec[where x = L], THEN spec[where x = h2],
            THEN spec[where x = "rnd_mul fl (t * mu)"], THEN spec[where x = xa], THEN spec[where x = steps2],
            THEN spec[where x = ns2], THEN mp, OF s2, THEN mp, OF pre(1), THEN mp, OF pre(2),
            THEN mp, OF pre(3), THEN mp, OF pre(4), THEN mp, OF xa2, THEN mp, OF m2,
            THEN mp, OF snap2, THEN spec[where x = h'], THEN spec[where x = xr],
            THEN spec[where x = steps'], THEN spec[where x = ns'], THEN mp, OF r]
        have res: "xr = xa" "unchanged_except h2 xa h'" "xa < length h'"
          "snapshots L h' xa (steps' @ concat ns')"
          and pure: "barrier_loop fl solve (deref h2 ca) (mat_of (h2 ! Aa)) (deref h2 ba) eps mu phase_one
            (rnd_mul fl (t * mu), deref h2 xa, map (deref h2) steps2, map (map (deref h2)) ns2)
          = Some (Inr (view (h', xr, steps', ns')))"
          by simp_all
        have u: "unchanged_except h xa h'" using u2 res(2) by (rule unchanged_except_trans)
        have "barrier_loop fl solve ?c ?A ?b eps mu phase_one ?ps
            = barrier_loop fl solve ?c ?A ?b eps mu phase_one
                (rnd_mul fl (t * mu), deref h2 xa, map (deref h2) steps2, map (map (deref h2)) ns2)"
          by (subst barrier_loop.simps)
             (simp only: test Inr True sum.case if_True pst option.case)
        also have "\<dots> = Some (Inr (view (h', xr, steps', ns')))"
          using pure by (simp add: deref_def same)
        finally show ?thesis using res u by simp
      qed
    qed
  qed
qed

lemma barrier_loop_h_result:
  assumes run: "barrier_loop_h fl solve ca Aa ba m eps mu phase_one (h, t, xa, steps, ns)
        = Some (Inr (h', xr, steps', ns'))"
    and pre: "ca < L" "Aa < L" "ba < L" "L \<le> xa" "xa < length h"
    and m: "m = nrows (mat_of (h ! Aa))"
    and snap: "snapshots L h xa (steps @ concat ns)"
  shows "xr = xa \<and> unchanged_except h xa h' \<and> xa < length h' \<and>
        snapshots L h' xa (steps' @ concat ns') \<and>
        barrier_loop fl solve (deref h ca) (mat_of (h ! Aa)) (deref h ba) eps mu phase_one
            (t, deref h xa, map (deref h) steps, map (map (deref h)) ns)
          = Some (Inr (view (h', xr, steps', ns')))"
  by (rule barrier_loop_h_refines[OF run, THEN spec[where x = L], THEN spec[where x = h],
      THEN spec[where x = t], THEN spec[where x = xa], THEN spec[where x = steps],
      THEN spec[where x = ns], THEN mp, OF refl, THEN mp, OF pre(1), THEN mp, OF pre(2),
      THEN mp, OF pre(3), THEN mp, OF pre(4), THEN mp, OF pre(5), THEN mp, OF m, THEN mp, OF snap,
      THEN spec[where x = h'], THEN spec[where x = xr], THEN spec[where x = steps'],
      THEN spec[where x = ns'], THEN mp, OF refl])

subsection \<open>The run with a Newton step, on the store\<close>

lemma newton_loop_h_stop:
  "solve (ddf h (deref h xa)) (df h (deref h xa)) = Inr y \<Longrightarrow>
   dot (vec_neg (df h (deref h xa))) (vec_neg y) / 2 \<le> eps \<Longrightarrow>
     newton_loop_h solve f dm df ddf eps xa h steps = Some (Inr (h, xa, steps))"
  by (subst newton_loop_h.simps) (simp add: Let_def)

lemma newton_loop_h_step:
  "solve (ddf h (deref h xa)) (df h (deref h xa)) = Inr y \<Longrightarrow>
   \<not> dot (vec_neg (df h (deref h xa))) (vec_neg y) / 2 \<le> eps \<Longrightarrow>
   backtracking_line_search (f h) (dm h) (df h) (deref h xa) (vec_neg y) (1 / 10) (8 / 10)
     = Some (t, calls) \<Longrightarrow>
     newton_loop_h solve f dm df ddf eps xa h steps =
       newton_loop_h solve f dm df ddf eps xa
         (fst (copy_array (iadd h xa (scale t (vec_neg y))) xa))
         (steps @ [snd (copy_array (iadd h xa (scale t (vec_neg y))) xa)])"
  by (subst newton_loop_h.simps) (simp add: Let_def)

lemma halfline_sol0:
  "cramer_solve (barrier_ddf halfline_A [0] [- 177 / 200])
        (barrier_df 1 [- 1] halfline_A [0] [- 177 / 200]) = Inr [4071 / 40000]"
  by (simp add: halfline_df halfline_ddf cramer_one power2_eq_square)

lemma halfline_go0:
  "\<not> dot (vec_neg (barrier_df 1 [- 1] halfline_A [0] [- 177 / 200]))
        (vec_neg [4071 / 40000]) / 2 \<le> 1 / 10 ^ 4"
  by (simp add: halfline_df vec_neg_def dot_def)

lemma halfline_x1: "vec_add [- 177 / 200] (scale 1 (vec_neg [4071 / 40000])) = [- 39471 / 40000]"
  by (simp add: vec_add_def scale_def vec_neg_def)

lemma halfline_sol1:
  "cramer_solve (barrier_ddf halfline_A [0] [- 39471 / 40000])
        (barrier_df 1 [- 1] halfline_A [0] [- 39471 / 40000]) = Inr [20880159 / 1600000000]"
  by (simp add: halfline_df halfline_ddf cramer_one power2_eq_square)

lemma halfline_stop1:
  "dot (vec_neg (barrier_df 1 [- 1] halfline_A [0] [- 39471 / 40000]))
        (vec_neg [20880159 / 1600000000]) / 2 \<le> 1 / 10 ^ 4"
  by (simp add: halfline_df vec_neg_def dot_def)

lemma store_newton:
  fixes h :: heap
  assumes h: "h ! 0 = Vec [- 1]" "h ! 1 = Mat halfline_A" "h ! 2 = Vec [0]"
    "h ! 4 = Vec [- 177 / 200]" "length h = 6"
  shows "newtons_method_h cramer_solve
      (\<lambda>g. barrier_f 1 (deref g 0) (mat_of (g ! 1)) (deref g 2))
      (\<lambda>g. barrier_in_domain (mat_of (g ! 1)) (deref g 2))
      (\<lambda>g. barrier_df 1 (deref g 0) (mat_of (g ! 1)) (deref g 2))
      (\<lambda>g. barrier_ddf (mat_of (g ! 1)) (deref g 2)) 4 h None
    = Some (Inr ((h @ [Vec [- 177 / 200]])[4 := Vec [- 39471 / 40000]] @ [Vec [- 39471 / 40000]],
         4, [6, 7]))"
proof -
  let ?f = "\<lambda>g. barrier_f 1 (deref g 0) (mat_of (g ! 1)) (deref g 2)"
  let ?dm = "\<lambda>g. barrier_in_domain (mat_of (g ! 1)) (deref g 2)"
  let ?df = "\<lambda>g. barrier_df 1 (deref g 0) (mat_of (g ! 1)) (deref g 2)"
  let ?ddf = "\<lambda>g. barrier_ddf (mat_of (g ! 1)) (deref g 2)"
  define h1 where "h1 = h @ [Vec [- 177 / 200]]"
  define h2 where "h2 = h1[4 := Vec [- 39471 / 40000]] @ [Vec [- 39471 / 40000]]"
  have c1: "?f h1 = barrier_f 1 [- 1] halfline_A [0]" "?dm h1 = barrier_in_domain halfline_A [0]"
    "?df h1 = barrier_df 1 [- 1] halfline_A [0]" "?ddf h1 = barrier_ddf halfline_A [0]"
    "deref h1 4 = [- 177 / 200]" "length h1 = 7"
    using h by (simp_all add: h1_def deref_def nth_append)
  have c2: "?f h2 = barrier_f 1 [- 1] halfline_A [0]" "?dm h2 = barrier_in_domain halfline_A [0]"
    "?df h2 = barrier_df 1 [- 1] halfline_A [0]" "?ddf h2 = barrier_ddf halfline_A [0]"
    "deref h2 4 = [- 39471 / 40000]"
    using h by (simp_all add: h2_def h1_def deref_def nth_append)
  have start: "fst (copy_array h 4) = h1" "snd (copy_array h 4) = 6"
    using h by (simp_all add: copy_array_eq h1_def)
  have next_store: "fst (copy_array (iadd h1 4 (scale 1 (vec_neg [4071 / 40000]))) 4) = h2"
    "snd (copy_array (iadd h1 4 (scale 1 (vec_neg [4071 / 40000]))) 4) = 7"
    using c1(5,6) halfline_x1
    by (simp_all add: copy_array_eq iadd_def h2_def nth_append)
  have sol0: "cramer_solve (?ddf h1 (deref h1 4)) (?df h1 (deref h1 4)) = Inr [4071 / 40000]"
    unfolding c1 by (rule halfline_sol0)
  have go0: "\<not> dot (vec_neg (?df h1 (deref h1 4))) (vec_neg [4071 / 40000]) / 2 \<le> 1 / 10 ^ 4"
    unfolding c1 by (rule halfline_go0)
  have ls0: "backtracking_line_search (?f h1) (?dm h1) (?df h1) (deref h1 4)
       (vec_neg [4071 / 40000]) (1 / 10) (8 / 10)
     = Some (1, [vec_add [- 177 / 200] (scale 1 (vec_neg [4071 / 40000])), [- 177 / 200]])"
    unfolding c1 by (rule halfline_line_search)
  have sol1: "cramer_solve (?ddf h2 (deref h2 4)) (?df h2 (deref h2 4))
      = Inr [20880159 / 1600000000]"
    unfolding c2 by (rule halfline_sol1)
  have stop1: "dot (vec_neg (?df h2 (deref h2 4))) (vec_neg [20880159 / 1600000000]) / 2
      \<le> 1 / 10 ^ 4"
    unfolding c2 by (rule halfline_stop1)
  have "newton_loop_h cramer_solve ?f ?dm ?df ?ddf (1 / 10 ^ 4) 4 h1 [6]
      = newton_loop_h cramer_solve ?f ?dm ?df ?ddf (1 / 10 ^ 4) 4 h2 ([6] @ [7])"
    using newton_loop_h_step[where solve = cramer_solve and f = ?f and dm = ?dm and df = ?df
        and ddf = ?ddf and h = h1 and xa = 4 and y = "[4071 / 40000]" and eps = "1 / 10 ^ 4"
        and steps = "[6]", OF sol0 go0 ls0]
    unfolding next_store .
  also have "\<dots> = Some (Inr (h2, 4, [6] @ [7]))"
    by (rule newton_loop_h_stop[where y = "[20880159 / 1600000000]"]) (rule sol1, rule stop1)
  finally show ?thesis
    by (simp add: newtons_method_h_def start h2_def h1_def)
qed

lemma halfline_store_run:
  "barrier_method_h float_scalars cramer_solve halfline_store 0 1 2 3 1 2 1 False
     = Some (Inr (halfline_store_final, 4, [5, 8], [[6, 7]]))"
proof -
  define h2 where "h2 = halfline_store @ [Vec [- 177 / 200], Vec [- 177 / 200]]"
  define h4 where
    "h4 = (h2 @ [Vec [- 177 / 200]])[4 := Vec [- 39471 / 40000]] @ [Vec [- 39471 / 40000]]"
  have h2: "h2 ! 0 = Vec [- 1]" "h2 ! 1 = Mat halfline_A" "h2 ! 2 = Vec [0]"
    "h2 ! 4 = Vec [- 177 / 200]" "length h2 = 6"
    by (simp_all add: h2_def halfline_store_def)
  have i1: "snd (copy_array halfline_store 3) = 4"
    by (simp add: copy_array_eq halfline_store_def)
  have i2: "fst (copy_array (fst (copy_array halfline_store 3)) 4) = h2"
    by (simp add: copy_array_eq h2_def halfline_store_def)
  have i3: "snd (copy_array (fst (copy_array halfline_store 3)) 4) = 5"
    by (simp add: copy_array_eq halfline_store_def)
  have i4: "nrows (mat_of (halfline_store ! 1)) = 1"
    by (simp add: halfline_store_def halfline_A_def nrows_def)
  have start: "barrier_method_h float_scalars cramer_solve halfline_store 0 1 2 3 1 2 1 False
      = barrier_loop_h float_scalars cramer_solve 0 1 2 1 1 2 False (h2, 1, 4, [5], [])"
    unfolding barrier_method_h_def i1 i2 i3 i4 ..
  have fin: "fst (copy_array h4 4) = halfline_store_final" "snd (copy_array h4 4) = 8"
    by (simp_all add: copy_array_eq h4_def h2_def halfline_store_def halfline_store_final_def)
  have stage: "barrier_stage_h float_scalars cramer_solve 0 1 2 2 (h2, 1, 4, [5], [])
      = Some (Inr (halfline_store_final, rnd_mul float_scalars (1 * 2), 4, [5] @ [8],
           [] @ [[6, 7]]))"
    by (simp only: barrier_stage_h_def prod.case store_newton[OF h2, folded h4_def]
        option.case sum.case fin)
  have tm: "rnd_mul float_scalars (1 * 2) = 2"
    by (simp add: float_scalars_def binary64_values)
  have t1: "loop_test float_scalars False 1 1 1 (deref h2 4) = Inr True"
    by (simp add: loop_test_def float_scalars_def binary64_values)
  have t2: "loop_test float_scalars False 1 1 2 (deref halfline_store_final 4) = Inr False"
    by (simp add: loop_test_def float_scalars_def binary64_values)
  show ?thesis
    unfolding start
    apply (subst barrier_loop_h.simps)
    apply (simp only: fst_conv snd_conv t1 sum.case if_True stage option.case tm)
    apply (subst barrier_loop_h.simps)
    apply (simp only: fst_conv snd_conv t2 sum.case if_False)
    apply simp
    done
qed

section \<open>The claims\<close>

text \<open>
  C1 (as the code has it). With \<open>phase_one = false\<close> the outer loop tests \<open>m / t \<ge> eps\<close> on
  the quotient that the machine returns, and a stage replaces \<open>t\<close> by the product \<open>t * mu\<close>
  that the machine returns. Let \<open>t\<^sub>j = stage_t fl mu t0 j\<close> be the value of \<open>t\<close> after \<open>j\<close>
  stages. If the test holds at \<open>t\<^sub>j\<close> for every \<open>j < k\<close> and fails at \<open>t\<^sub>k\<close> (no \<open>t\<^sub>j\<close> being
  zero), a call of \<open>barrier_method\<close> is exactly \<open>k\<close> barrier stages in a row, followed by the
  return: if every one of these centering calls returns, the run returns with \<open>k\<close> inner
  traces; if one of them raises or does not return, so does the run. Let \<open>k\<^sub>0\<close> be the
  least \<open>k\<close> with \<open>m / (t0 * mu ^ k) < eps\<close>, for \<open>eps > 0\<close>, \<open>mu > 1\<close>, \<open>t0 > 0\<close>. If the
  machine returns the quotients \<open>m / (t0 * mu ^ j)\<close> for \<open>j \<le> k\<^sub>0\<close> and the products
  \<open>t0 * mu ^ j * mu\<close> for \<open>j < k\<^sub>0\<close> unrounded, the run has exactly \<open>k\<^sub>0\<close> stages, the count
  of the specification. (The theorem also states one turn of the loop: at \<open>t \<noteq> 0\<close> it
  performs a stage and goes on when the rounded \<open>m / t\<close> is at least \<open>eps\<close> and returns
  otherwise, and a stage replaces \<open>t\<close> by the rounded \<open>t * mu\<close>.)
\<close>

theorem barrier_method_stage_count:
  "((\<forall>j\<le>k. stage_t fl mu t0 j \<noteq> 0) \<longrightarrow>
    (\<forall>j<k. eps \<le> rnd_div fl (real (nrows A) / stage_t fl mu t0 j)) \<longrightarrow>
    rnd_div fl (real (nrows A) / stage_t fl mu t0 k) < eps \<longrightarrow>
      barrier_method fl solve c A b x_0 eps mu t0 False =
        (case barrier_stages fl solve c A b mu k (t0, x_0, [x_0], []) of
           None \<Rightarrow> None
         | Some (Inl e) \<Rightarrow> Some (Inl e)
         | Some (Inr s) \<Rightarrow> Some (Inr (snd s)))
      \<and> (\<forall>s. barrier_stages fl solve c A b mu k (t0, x_0, [x_0], []) = Some (Inr s) \<longrightarrow>
             fst s = stage_t fl mu t0 k \<and> length (snd (snd (snd s))) = k))
   \<and> (0 < eps \<longrightarrow> 1 < mu \<longrightarrow> 0 < t0 \<longrightarrow>
      (\<forall>j\<le>(LEAST k. real (nrows A) / (t0 * mu ^ k) < eps).
         rnd_div fl (real (nrows A) / (t0 * mu ^ j)) = real (nrows A) / (t0 * mu ^ j)) \<longrightarrow>
      (\<forall>j<(LEAST k. real (nrows A) / (t0 * mu ^ k) < eps).
         rnd_mul fl (t0 * mu ^ j * mu) = t0 * mu ^ j * mu) \<longrightarrow>
      barrier_method fl solve c A b x_0 eps mu t0 False =
        (case barrier_stages fl solve c A b mu (LEAST k. real (nrows A) / (t0 * mu ^ k) < eps)
                (t0, x_0, [x_0], []) of
           None \<Rightarrow> None
         | Some (Inl e) \<Rightarrow> Some (Inl e)
         | Some (Inr s) \<Rightarrow> Some (Inr (snd s)))
      \<and> (\<forall>s. barrier_stages fl solve c A b mu (LEAST k. real (nrows A) / (t0 * mu ^ k) < eps)
                (t0, x_0, [x_0], []) = Some (Inr s) \<longrightarrow>
             length (snd (snd (snd s))) = (LEAST k. real (nrows A) / (t0 * mu ^ k) < eps)))
   \<and> (\<forall>t x steps newt_steps. t \<noteq> 0 \<longrightarrow>
         barrier_loop fl solve c A b eps mu False (t, x, steps, newt_steps) =
           (if eps \<le> rnd_div fl (real (nrows A) / t)
            then (case barrier_stage fl solve c A b mu (t, x, steps, newt_steps) of
                    None \<Rightarrow> None
                  | Some (Inl e) \<Rightarrow> Some (Inl e)
                  | Some (Inr s') \<Rightarrow> barrier_loop fl solve c A b eps mu False s')
            else Some (Inr (x, steps, newt_steps))))
   \<and> (\<forall>s s'. barrier_stage fl solve c A b mu s = Some (Inr s') \<longrightarrow>
         fst s' = rnd_mul fl (fst s * mu))"
proof (intro conjI impI)
  assume nz: "\<forall>j\<le>k. stage_t fl mu t0 j \<noteq> 0"
    and go: "\<forall>j<k. eps \<le> rnd_div fl (real (nrows A) / stage_t fl mu t0 j)"
    and stop: "rnd_div fl (real (nrows A) / stage_t fl mu t0 k) < eps"
  show "barrier_method fl solve c A b x_0 eps mu t0 False =
        (case barrier_stages fl solve c A b mu k (t0, x_0, [x_0], []) of
           None \<Rightarrow> None
         | Some (Inl e) \<Rightarrow> Some (Inl e)
         | Some (Inr s) \<Rightarrow> Some (Inr (snd s)))"
    unfolding barrier_method_def
    by (rule barrier_loop_stages) (use nz go stop in simp_all)
  show "\<forall>s. barrier_stages fl solve c A b mu k (t0, x_0, [x_0], []) = Some (Inr s) \<longrightarrow>
             fst s = stage_t fl mu t0 k \<and> length (snd (snd (snd s))) = k"
    using barrier_stages_shape[of fl solve c A b mu k "(t0, x_0, [x_0], [])"] by auto
next
  let ?P = "\<lambda>k. real (nrows A) / (t0 * mu ^ k) < eps"
  let ?k = "LEAST k. ?P k"
  assume pos: "0 < eps" "1 < mu" "0 < t0"
    and qe: "\<forall>j\<le>?k. rnd_div fl (real (nrows A) / (t0 * mu ^ j)) = real (nrows A) / (t0 * mu ^ j)"
    and pe: "\<forall>j<?k. rnd_mul fl (t0 * mu ^ j * mu) = t0 * mu ^ j * mu"
  have ex: "\<exists>k. ?P k" by (rule gap_reached[OF pos])
  then have Pk: "?P ?k" by (rule LeastI_ex)
  have below: "\<And>j. j < ?k \<Longrightarrow> eps \<le> real (nrows A) / (t0 * mu ^ j)"
    using not_less_Least[of _ ?P] by (auto simp: not_less)
  have t: "stage_t fl mu t0 j = t0 * mu ^ j" if "j \<le> ?k" for j
  proof (rule stage_t_exact, intro allI impI)
    fix i assume "i < j"
    with that have "i < ?k" by simp
    with pe show "rnd_mul fl (t0 * mu ^ i * mu) = t0 * mu ^ i * mu" by blast
  qed
  have nz: "\<forall>j\<le>?k. stage_t fl mu (fst (t0, x_0, [x_0], [])) j \<noteq> 0"
  proof (intro allI impI)
    fix j assume j: "j \<le> ?k"
    have "t0 * mu ^ j \<noteq> 0" using pos by simp
    then show "stage_t fl mu (fst (t0, x_0, [x_0], [])) j \<noteq> 0" unfolding fst_conv t[OF j] .
  qed
  have go: "\<forall>j<?k. eps \<le> rnd_div fl (real (nrows A) / stage_t fl mu (fst (t0, x_0, [x_0], [])) j)"
  proof (intro allI impI)
    fix j assume j: "j < ?k"
    then have j': "j \<le> ?k" by simp
    from qe j' have "rnd_div fl (real (nrows A) / (t0 * mu ^ j)) = real (nrows A) / (t0 * mu ^ j)"
      by blast
    then show "eps \<le> rnd_div fl (real (nrows A) / stage_t fl mu (fst (t0, x_0, [x_0], [])) j)"
      using below[OF j] t[OF j'] by simp
  qed
  have stop: "rnd_div fl (real (nrows A) / stage_t fl mu (fst (t0, x_0, [x_0], [])) ?k) < eps"
  proof -
    from qe have "rnd_div fl (real (nrows A) / (t0 * mu ^ ?k)) = real (nrows A) / (t0 * mu ^ ?k)"
      by blast
    then show ?thesis using Pk t[OF order_refl] by simp
  qed
  show "barrier_method fl solve c A b x_0 eps mu t0 False =
        (case barrier_stages fl solve c A b mu ?k (t0, x_0, [x_0], []) of
           None \<Rightarrow> None
         | Some (Inl e) \<Rightarrow> Some (Inl e)
         | Some (Inr s) \<Rightarrow> Some (Inr (snd s)))"
    unfolding barrier_method_def by (rule barrier_loop_stages[OF nz go stop])
  show "\<forall>s. barrier_stages fl solve c A b mu ?k (t0, x_0, [x_0], []) = Some (Inr s) \<longrightarrow>
             length (snd (snd (snd s))) = ?k"
    using barrier_stages_shape[of fl solve c A b mu ?k "(t0, x_0, [x_0], [])"] by auto
next
  show "\<forall>t x steps newt_steps. t \<noteq> 0 \<longrightarrow>
         barrier_loop fl solve c A b eps mu False (t, x, steps, newt_steps) =
           (if eps \<le> rnd_div fl (real (nrows A) / t)
            then (case barrier_stage fl solve c A b mu (t, x, steps, newt_steps) of
                    None \<Rightarrow> None
                  | Some (Inl e) \<Rightarrow> Some (Inl e)
                  | Some (Inr s') \<Rightarrow> barrier_loop fl solve c A b eps mu False s')
            else Some (Inr (x, steps, newt_steps)))"
  proof (intro allI impI)
    fix t :: real and x steps newt_steps
    assume "t \<noteq> 0"
    then show "barrier_loop fl solve c A b eps mu False (t, x, steps, newt_steps) =
           (if eps \<le> rnd_div fl (real (nrows A) / t)
            then (case barrier_stage fl solve c A b mu (t, x, steps, newt_steps) of
                    None \<Rightarrow> None
                  | Some (Inl e) \<Rightarrow> Some (Inl e)
                  | Some (Inr s') \<Rightarrow> barrier_loop fl solve c A b eps mu False s')
            else Some (Inr (x, steps, newt_steps)))"
      by (subst barrier_loop.simps) (simp add: loop_test_False)
  qed
next
  show "\<forall>s s'. barrier_stage fl solve c A b mu s = Some (Inr s') \<longrightarrow>
         fst s' = rnd_mul fl (fst s * mu)"
    using barrier_stage_t by blast
qed

theorem barrier_method_stage_count_witness:
  "stage_t float_scalars 2 1 2 = 4 \<and>
   rnd_div float_scalars (real (nrows interval_A) / stage_t float_scalars 2 1 1) = 1 \<and>
   rnd_div float_scalars (real (nrows interval_A) / stage_t float_scalars 2 1 2) = 1 / 2 \<and>
   (LEAST k. real (nrows interval_A) / (1 * 2 ^ k) < (1::real)) = 2 \<and>
   barrier_method float_scalars cramer_solve [0] interval_A [1, 1] [0] 1 2 1 False
     = Some (Inr ([0], [[0], [0], [0]], [[[0]], [[0]]]))"
proof -
  have nz: "\<forall>j\<le>2. stage_t float_scalars 2 1 j \<noteq> 0"
  proof (intro allI impI)
    fix j :: nat assume "j \<le> 2"
    then have "j = 0 \<or> j = 1 \<or> j = 2" by auto
    then show "stage_t float_scalars 2 1 j \<noteq> 0" using centre_stage_t by auto
  qed
  have q: "rnd_div float_scalars (real (nrows interval_A) / stage_t float_scalars 2 1 0) = 2"
    "rnd_div float_scalars (real (nrows interval_A) / stage_t float_scalars 2 1 1) = 1"
    "rnd_div float_scalars (real (nrows interval_A) / stage_t float_scalars 2 1 2) = 1 / 2"
    unfolding centre_stage_t interval_rows by (simp_all add: float_scalars_def binary64_values)
  have go: "\<forall>j<2. 1 \<le> rnd_div float_scalars
      (real (nrows interval_A) / stage_t float_scalars 2 1 j)"
  proof (intro allI impI)
    fix j :: nat assume "j < 2"
    then have "j = 0 \<or> j = 1" by auto
    then show "1 \<le> rnd_div float_scalars (real (nrows interval_A) / stage_t float_scalars 2 1 j)"
      using q by auto
  qed
  have stop: "rnd_div float_scalars (real (nrows interval_A) / stage_t float_scalars 2 1 2) < 1"
    using q(3) by simp
  note a = barrier_method_stage_count[where fl = float_scalars and k = 2 and mu = 2
      and ?t0.0 = 1 and eps = 1 and A = interval_A and solve = cramer_solve and c = "[0]"
      and b = "[1, 1]" and ?x_0.0 = "[0]",
      THEN conjunct1, THEN mp, OF nz, THEN mp, OF go, THEN mp, OF stop, THEN conjunct1]
  have run: "barrier_method float_scalars cramer_solve [0] interval_A [1, 1] [0] 1 2 1 False
     = Some (Inr ([0], [[0], [0], [0]], [[[0]], [[0]]]))"
    using a by (simp add: centre_stages)
  show ?thesis by (intro conjI centre_stage_t q centre_least run)
qed

text \<open>
  C1 as stated fails: the least \<open>k\<close> with \<open>m / (t0 * mu ^ k) < eps\<close> is computed with exact
  quotients, the loop test with rounded ones. On the interval \<open>-1 \<le> x \<le> 1\<close> (\<open>m = 2\<close>,
  \<open>c = [0]\<close>, started at the strictly feasible \<open>x_0 = [0]\<close>) with \<open>mu = 20\<close>: for the ints
  \<open>t0 = 2 ^ 60 + 1\<close> and \<open>eps = 2 ^ - 59\<close>, and for the floats \<open>t0 = 20\<close> and \<open>eps\<close> the double
  \<^verbatim>\<open>0.1\<close>, the exact quotient \<open>m / t0\<close> is below \<open>eps\<close>, so the least \<open>k\<close> is \<open>0\<close>; yet the run
  performs one barrier stage, because the machine rounds \<open>m / t0\<close> up to \<open>eps\<close>.
\<close>

theorem stage_count_counterexample:
  "(0::real) < 1 / 2 ^ 59 \<and> (1::real) < 20 \<and> (0::real) < 2 ^ 60 + 1 \<and>
   barrier_in_domain interval_A [1, 1] [0] \<and>
   (LEAST k. real (nrows interval_A) / ((2 ^ 60 + 1) * 20 ^ k) < 1 / 2 ^ 59) = 0 \<and>
   barrier_method int_scalars cramer_solve [0] interval_A [1, 1] [0] (1 / 2 ^ 59) 20
       (2 ^ 60 + 1) False
     = Some (Inr ([0], [[0], [0]], [[[0]]])) \<and>
   (0::real) < 3602879701896397 / 2 ^ 55 \<and>
   (LEAST k. real (nrows interval_A) / (20 * 20 ^ k) < (3602879701896397 / 2 ^ 55 :: real)) = 0 \<and>
   barrier_method float_scalars cramer_solve [0] interval_A [1, 1] [0]
       (3602879701896397 / 2 ^ 55) 20 20 False
     = Some (Inr ([0], [[0], [0]], [[[0]]]))"
proof -
  have dom: "barrier_in_domain interval_A [1, 1] [0]"
    by (simp add: barrier_in_domain_def interval_A_def vec_sub_def mat_vec_def dot_def)
  have l1: "(LEAST k. real (nrows interval_A) / ((2 ^ 60 + 1) * 20 ^ k) < 1 / 2 ^ 59) = 0"
    by (rule Least_eq_0) (simp add: interval_rows)
  have l2: "(LEAST k. real (nrows interval_A) / (20 * 20 ^ k)
      < (3602879701896397 / 2 ^ 55 :: real)) = 0"
    by (rule Least_eq_0) (simp add: interval_rows)
  show ?thesis by (intro conjI dom l1 l2 tie_int_run tie_float_run) simp_all
qed

text \<open>
  C2. One iteration of \<open>newtons_method\<close> at the point \<open>xk\<close>, for a solver that returns
  \<open>y\<close> with \<open>ddf(xk) \<cdot> y = df(xk)\<close>: the direction \<open>dx = -y\<close> solves
  \<open>ddf(xk) \<cdot> dx = -df(xk)\<close>; the decrement \<open>lambda_sq\<close> of the code is \<open>-df(xk) \<cdot> dx\<close>; when
  \<open>lambda_sq / 2 \<le> eps\<close> the loop returns the current \<open>xk\<close> and the trace; otherwise, with
  the step \<open>t\<close> of the line search (called with \<open>alpha = 0.1\<close>, \<open>beta = 0.8\<close>), the loop goes
  on from \<open>xk + t * dx\<close> with this point appended to the trace. A call without \<open>eps\<close> uses
  \<open>eps = 1e-4\<close>, and the trace starts as \<open>[x]\<close>.
\<close>

theorem newton_iteration:
  assumes "solve (ddf xk) (df xk) = Inr y" and "mat_vec (ddf xk) y = df xk"
  shows "mat_vec (ddf xk) (vec_neg y) = vec_neg (df xk) \<and>
     dot (vec_neg (df xk)) (vec_neg y) = - dot (df xk) (vec_neg y) \<and>
     (- dot (df xk) (vec_neg y) / 2 \<le> eps \<longrightarrow>
        newton_loop solve f in_domain_of_f df ddf eps xk steps = Some (Inr (xk, steps))) \<and>
     (\<not> - dot (df xk) (vec_neg y) / 2 \<le> eps \<longrightarrow>
        (\<forall>t calls.
           backtracking_line_search f in_domain_of_f df xk (vec_neg y) (1 / 10) (8 / 10)
             = Some (t, calls) \<longrightarrow>
           newton_loop solve f in_domain_of_f df ddf eps xk steps =
             newton_loop solve f in_domain_of_f df ddf eps (vec_add xk (scale t (vec_neg y)))
               (steps @ [vec_add xk (scale t (vec_neg y))]))) \<and>
     newtons_method solve f in_domain_of_f df ddf xk None =
       newton_loop solve f in_domain_of_f df ddf (1 / 10 ^ 4) xk [xk] \<and>
     newtons_method solve f in_domain_of_f df ddf xk (Some eps) =
       newton_loop solve f in_domain_of_f df ddf eps xk [xk]"
proof -
  have d: "mat_vec (ddf xk) (vec_neg y) = vec_neg (df xk)"
    using assms(2) by (simp add: mat_vec_neg)
  have l: "dot (vec_neg (df xk)) (vec_neg y) = - dot (df xk) (vec_neg y)"
    by (rule dot_neg_left)
  have stop: "newton_loop solve f in_domain_of_f df ddf eps xk steps = Some (Inr (xk, steps))"
    if "- dot (df xk) (vec_neg y) / 2 \<le> eps"
    using newton_loop_stop[where solve = solve and ddf = ddf and df = df and xk = xk and y = y
        and eps = eps and f = f and dm = in_domain_of_f and steps = steps, OF assms(1)] that l
    by simp
  have step: "newton_loop solve f in_domain_of_f df ddf eps xk steps =
             newton_loop solve f in_domain_of_f df ddf eps (vec_add xk (scale t (vec_neg y)))
               (steps @ [vec_add xk (scale t (vec_neg y))])"
    if "\<not> - dot (df xk) (vec_neg y) / 2 \<le> eps"
      "backtracking_line_search f in_domain_of_f df xk (vec_neg y) (1 / 10) (8 / 10) = Some (t, calls)"
    for t calls
    using newton_loop_step[where solve = solve and ddf = ddf and df = df and xk = xk and y = y
        and eps = eps and f = f and dm = in_domain_of_f and steps = steps, OF assms(1) _ that(2)]
      that(1) l
    by simp
  have nm: "newtons_method solve f in_domain_of_f df ddf xk None =
       newton_loop solve f in_domain_of_f df ddf (1 / 10 ^ 4) xk [xk]"
    "newtons_method solve f in_domain_of_f df ddf xk (Some eps) =
       newton_loop solve f in_domain_of_f df ddf eps xk [xk]"
    by (simp_all add: newtons_method_def)
  show ?thesis
  proof (intro conjI impI allI)
    show "mat_vec (ddf xk) (vec_neg y) = vec_neg (df xk)" by (rule d)
    show "dot (vec_neg (df xk)) (vec_neg y) = - dot (df xk) (vec_neg y)" by (rule l)
    show "newtons_method solve f in_domain_of_f df ddf xk None =
       newton_loop solve f in_domain_of_f df ddf (1 / 10 ^ 4) xk [xk]" by (rule nm(1))
    show "newtons_method solve f in_domain_of_f df ddf xk (Some eps) =
       newton_loop solve f in_domain_of_f df ddf eps xk [xk]" by (rule nm(2))
  qed (rule stop step, assumption+)+
qed

theorem newton_iteration_witness:
  "cramer_solve (barrier_ddf halfline_A [0] [- 177 / 200])
        (barrier_df 1 [- 1] halfline_A [0] [- 177 / 200]) = Inr [4071 / 40000] \<and>
   mat_vec (barrier_ddf halfline_A [0] [- 177 / 200]) [4071 / 40000]
     = barrier_df 1 [- 1] halfline_A [0] [- 177 / 200] \<and>
   mat_vec (barrier_ddf halfline_A [0] [- 177 / 200]) (vec_neg [4071 / 40000])
     = vec_neg (barrier_df 1 [- 1] halfline_A [0] [- 177 / 200]) \<and>
   \<not> - dot (barrier_df 1 [- 1] halfline_A [0] [- 177 / 200]) (vec_neg [4071 / 40000]) / 2
       \<le> 1 / 10 ^ 4 \<and>
   newton_loop cramer_solve (barrier_f 1 [- 1] halfline_A [0]) (barrier_in_domain halfline_A [0])
       (barrier_df 1 [- 1] halfline_A [0]) (barrier_ddf halfline_A [0]) (1 / 10 ^ 4)
       [- 177 / 200] [[- 177 / 200]]
     = newton_loop cramer_solve (barrier_f 1 [- 1] halfline_A [0])
         (barrier_in_domain halfline_A [0]) (barrier_df 1 [- 1] halfline_A [0])
         (barrier_ddf halfline_A [0]) (1 / 10 ^ 4)
         (vec_add [- 177 / 200] (scale 1 (vec_neg [4071 / 40000])))
         ([[- 177 / 200]] @ [vec_add [- 177 / 200] (scale 1 (vec_neg [4071 / 40000]))])"
proof -
  have sol: "cramer_solve (barrier_ddf halfline_A [0] [- 177 / 200])
        (barrier_df 1 [- 1] halfline_A [0] [- 177 / 200]) = Inr [4071 / 40000]"
    by (simp add: halfline_df halfline_ddf cramer_one power2_eq_square)
  have ex: "mat_vec (barrier_ddf halfline_A [0] [- 177 / 200]) [4071 / 40000]
     = barrier_df 1 [- 1] halfline_A [0] [- 177 / 200]"
    by (simp add: halfline_df halfline_ddf mat_vec_def dot_def power2_eq_square)
  have go: "\<not> - dot (barrier_df 1 [- 1] halfline_A [0] [- 177 / 200]) (vec_neg [4071 / 40000]) / 2
       \<le> 1 / 10 ^ 4"
    by (simp add: halfline_df vec_neg_def dot_def)
  note it = newton_iteration[where solve = cramer_solve and ddf = "barrier_ddf halfline_A [0]"
      and df = "barrier_df 1 [- 1] halfline_A [0]" and xk = "[- 177 / 200]"
      and y = "[4071 / 40000]" and eps = "1 / 10 ^ 4" and f = "barrier_f 1 [- 1] halfline_A [0]"
      and in_domain_of_f = "barrier_in_domain halfline_A [0]" and steps = "[[- 177 / 200]]",
      OF sol ex]
  from it have d: "mat_vec (barrier_ddf halfline_A [0] [- 177 / 200]) (vec_neg [4071 / 40000])
     = vec_neg (barrier_df 1 [- 1] halfline_A [0] [- 177 / 200])" by (rule conjunct1)
  from it[THEN conjunct2, THEN conjunct2, THEN conjunct2, THEN conjunct1, rule_format,
      OF go halfline_line_search]
  show ?thesis by (intro conjI sol ex d go)
qed

text \<open>
  C3. At the barrier stage with penalty \<open>t\<close> the four closures handed to
  \<open>newtons_method\<close> are \<open>barrier_f t c A b\<close>, \<open>barrier_in_domain A b\<close>, \<open>barrier_df t c A b\<close>
  and \<open>barrier_ddf A b\<close>. On well-shaped data (\<open>c\<close> and \<open>x\<close> of length \<open>n\<close>, \<open>b\<close> of
  length \<open>m\<close>, every row of \<open>A\<close> of length \<open>n\<close>) they are the formulas of the specification:
  \<open>t * c \<cdot> x - \<Sum>\<^sub>i ln (b\<^sub>i - A\<^sub>i \<cdot> x)\<close>; \<open>b\<^sub>i - A\<^sub>i \<cdot> x > 0\<close> for every \<open>i\<close>; the vector with
  the entries \<open>t * c\<^sub>j + \<Sum>\<^sub>i A\<^sub>i\<^sub>j / (b\<^sub>i - A\<^sub>i \<cdot> x)\<close>; the matrix with the entries
  \<open>\<Sum>\<^sub>i A\<^sub>i\<^sub>j * A\<^sub>i\<^sub>k / (b\<^sub>i - A\<^sub>i \<cdot> x)\<^sup>2\<close>, which is \<open>A\<^sup>T diag(1 / (b - A x)\<^sup>2) A\<close>.
\<close>

theorem barrier_closures_match_formulas:
  assumes "length c = ncols A" and "length b = nrows A"
    and "\<forall>r \<in> set (rows A). length r = ncols A" and "length x = ncols A"
  shows "barrier_stage fl solve c A b mu (t, x, steps, newt_steps) =
       (case newtons_method solve (barrier_f t c A b) (barrier_in_domain A b)
               (barrier_df t c A b) (barrier_ddf A b) x None of
          None \<Rightarrow> None
        | Some (Inl e) \<Rightarrow> Some (Inl e)
        | Some (Inr (x', tr)) \<Rightarrow> Some (Inr (rnd_mul fl (t * mu), x', steps @ [x'],
                                    newt_steps @ [tr]))) \<and>
     barrier_f t c A b x = spec_f t c A b x \<and>
     (barrier_in_domain A b x \<longleftrightarrow> spec_in_domain A b x) \<and>
     barrier_df t c A b x = spec_gradient t c A b x \<and>
     barrier_ddf A b x = spec_hessian A b x \<and>
     barrier_ddf A b x =
       mat_mul (mat_mul (transpose_mat A)
                  (diag_mat (map (\<lambda>i. 1 / (slack A b x i)\<^sup>2) [0..<nrows A]))) A"
proof (intro conjI)
  show "barrier_stage fl solve c A b mu (t, x, steps, newt_steps) =
       (case newtons_method solve (barrier_f t c A b) (barrier_in_domain A b)
               (barrier_df t c A b) (barrier_ddf A b) x None of
          None \<Rightarrow> None
        | Some (Inl e) \<Rightarrow> Some (Inl e)
        | Some (Inr (x', tr)) \<Rightarrow> Some (Inr (rnd_mul fl (t * mu), x', steps @ [x'],
                                    newt_steps @ [tr])))"
    by (simp add: barrier_stage_def)
  show "barrier_f t c A b x = spec_f t c A b x" by (rule f_formula[OF assms])
  show "barrier_in_domain A b x \<longleftrightarrow> spec_in_domain A b x"
    by (rule in_domain_formula[OF assms(2,3,4)])
  show "barrier_df t c A b x = spec_gradient t c A b x" by (rule gradient_formula[OF assms])
  show h: "barrier_ddf A b x = spec_hessian A b x" by (rule hessian_formula[OF assms(2,3,4)])
  show "barrier_ddf A b x =
       mat_mul (mat_mul (transpose_mat A)
                  (diag_mat (map (\<lambda>i. 1 / (slack A b x i)\<^sup>2) [0..<nrows A]))) A"
    unfolding h by (rule diag_formula)
qed

theorem barrier_closures_match_formulas_witness:
  "length [- 1 :: real] = ncols halfline_A \<and> length [0 :: real] = nrows halfline_A \<and>
   length [- 177 / 200 :: real] = ncols halfline_A \<and>
   spec_f 1 [- 1] halfline_A [0] [- 177 / 200] = 177 / 200 - ln (177 / 200) \<and>
   spec_in_domain halfline_A [0] [- 177 / 200] \<and>
   spec_gradient 1 [- 1] halfline_A [0] [- 177 / 200] = [23 / 177] \<and>
   spec_hessian halfline_A [0] [- 177 / 200] = \<lparr>ncols = 1, rows = [[40000 / 31329]]\<rparr>"
proof -
  have h1: "length [- 1 :: real] = ncols halfline_A" by (simp add: halfline_A_def)
  have h2: "length [0 :: real] = nrows halfline_A" by (simp add: halfline_A_def nrows_def)
  have h3: "\<forall>r \<in> set (rows halfline_A). length r = ncols halfline_A"
    by (simp add: halfline_A_def)
  have h4: "length [- 177 / 200 :: real] = ncols halfline_A" by (simp add: halfline_A_def)
  note m = barrier_closures_match_formulas[OF h1 h2 h3 h4, where solve = cramer_solve
      and mu = 2 and t = 1 and steps = "[]" and newt_steps = "[]"]
  have f: "barrier_f 1 [- 1] halfline_A [0] [- 177 / 200] = 177 / 200 - ln (177 / 200)"
    by (simp add: halfline_f)
  have d: "barrier_in_domain halfline_A [0] [- 177 / 200]" by (simp add: halfline_dom)
  have g: "barrier_df 1 [- 1] halfline_A [0] [- 177 / 200] = [23 / 177]"
    by (simp add: halfline_df)
  have hs: "barrier_ddf halfline_A [0] [- 177 / 200] = \<lparr>ncols = 1, rows = [[40000 / 31329]]\<rparr>"
    by (simp add: halfline_ddf power2_eq_square)
  from m f have 1: "spec_f 1 [- 1] halfline_A [0] [- 177 / 200] = 177 / 200 - ln (177 / 200)"
    by metis
  from m d have 2: "spec_in_domain halfline_A [0] [- 177 / 200]" by blast
  from m g have 3: "spec_gradient 1 [- 1] halfline_A [0] [- 177 / 200] = [23 / 177]" by metis
  from m hs have 4: "spec_hessian halfline_A [0] [- 177 / 200] = \<lparr>ncols = 1, rows = [[40000 / 31329]]\<rparr>"
    by metis
  show ?thesis by (intro conjI h1 h2 h4 1 2 3 4)
qed

text \<open>
  C4. A run of \<open>barrier_method\<close> on well-shaped data, with a solver that returns a vector
  of the length of its right-hand side, from a strictly feasible \<open>x_0\<close>: when the run
  returns, the returned point, every point of the outer trace and every point of every
  inner trace is strictly feasible (\<open>b - A x > 0\<close> in every entry).
\<close>

theorem iterates_strictly_feasible:
  assumes shapes: "length c = ncols A" "length b = nrows A"
      "\<forall>r \<in> set (rows A). length r = ncols A" "length x_0 = ncols A"
    and solver: "\<forall>H g y. solve H g = Inr y \<longrightarrow> length y = length g"
    and feasible: "barrier_in_domain A b x_0"
    and run: "barrier_method fl solve c A b x_0 eps mu t0 phase_one = Some (Inr (x, steps, newt_steps))"
  shows "barrier_in_domain A b x \<and> (\<forall>p \<in> set steps. barrier_in_domain A b p) \<and>
     (\<forall>tr \<in> set newt_steps. \<forall>p \<in> set tr. barrier_in_domain A b p)"
proof -
  have seg: "\<forall>y d s u. barrier_in_domain A b y \<longrightarrow> length y = ncols A \<longrightarrow> length d = ncols A \<longrightarrow>
       0 \<le> s \<longrightarrow> s \<le> u \<longrightarrow> barrier_in_domain A b (vec_add y (scale u d)) \<longrightarrow>
       barrier_in_domain A b (vec_add y (scale s d))"
    using in_domain_segment by auto
  have "stage_inv (barrier_in_domain A b) (ncols A) x_0 [x_0] []"
    using feasible shapes(4) by (simp add: stage_inv_def)
  then have init: "\<forall>t z st ns. (t0, x_0, [x_0], []) = (t, z, st, ns) \<longrightarrow>
      stage_inv (barrier_in_domain A b) (ncols A) z st ns"
    by simp
  note inv = barrier_loop_invariant[OF run[unfolded barrier_method_def],
      of "barrier_in_domain A b"]
  from inv[THEN mp, OF solver, THEN mp, OF shapes(1), THEN mp, OF seg, THEN mp, OF init]
  have "stage_inv (barrier_in_domain A b) (ncols A) x steps newt_steps" by simp
  then show ?thesis by (simp add: stage_inv_def)
qed

theorem iterates_strictly_feasible_witness:
  "length [- 1 :: real] = ncols halfline_A \<and> length [0 :: real] = nrows halfline_A \<and>
   length [- 177 / 200 :: real] = ncols halfline_A \<and>
   barrier_in_domain halfline_A [0] [- 177 / 200] \<and>
   barrier_method float_scalars cramer_solve [- 1] halfline_A [0] [- 177 / 200] 1 2 1 False
     = Some (Inr ([- 39471 / 40000], [[- 177 / 200], [- 39471 / 40000]],
          [[[- 177 / 200], [- 39471 / 40000]]])) \<and>
   barrier_in_domain halfline_A [0] [- 39471 / 40000]"
proof -
  have h1: "length [- 1 :: real] = ncols halfline_A" by (simp add: halfline_A_def)
  have h2: "length [0 :: real] = nrows halfline_A" by (simp add: halfline_A_def nrows_def)
  have h3: "\<forall>r \<in> set (rows halfline_A). length r = ncols halfline_A"
    by (simp add: halfline_A_def)
  have h4: "length [- 177 / 200 :: real] = ncols halfline_A" by (simp add: halfline_A_def)
  have h5: "\<forall>H g y. cramer_solve H g = Inr y \<longrightarrow> length y = length g"
    using cramer_solve_shape by blast
  have h6: "barrier_in_domain halfline_A [0] [- 177 / 200]" by (simp add: halfline_dom)
  note concl = iterates_strictly_feasible[OF h1 h2 h3 h4 h5 h6 halfline_run]
  show ?thesis
    by (intro conjI h1 h2 h4 h6 halfline_run concl[THEN conjunct1])
qed

text \<open>
  C5 (as the code has it). \<open>barrier_method\<close> checks none of its preconditions before
  the loop: it neither tests \<open>x_0\<close> for strict feasibility nor compares the dimensions of
  \<open>c\<close>, \<open>A\<close> and \<open>b\<close>. With \<open>phase_one = false\<close> and the loop test false at entry (the
  quotient \<open>m / t0\<close>, as the machine returns it, is below \<open>eps\<close>) it returns \<open>x_0\<close>, the outer
  trace \<open>[x_0]\<close> and no inner trace, whatever \<open>c\<close>, \<open>A\<close>, \<open>b\<close> and \<open>x_0\<close> are.
\<close>

theorem barrier_method_no_eager_check:
  "t0 \<noteq> 0 \<Longrightarrow> rnd_div fl (real (nrows A) / t0) < eps \<Longrightarrow>
     barrier_method fl solve c A b x_0 eps mu t0 False = Some (Inr (x_0, [x_0], []))"
  unfolding barrier_method_def
  by (subst barrier_loop.simps) (simp add: loop_test_False)

theorem barrier_method_no_eager_check_witness:
  "(2::real) \<noteq> 0 \<and>
   rnd_div float_scalars (real (nrows \<lparr>ncols = 1, rows = [[1]]\<rparr>) / 2) < (1::real) \<and>
   barrier_method float_scalars cramer_solve [1, 2, 3] \<lparr>ncols = 1, rows = [[1]]\<rparr> [] [5, 5] 1 2 2 False
     = Some (Inr ([5, 5], [[5, 5]], []))"
  using barrier_method_no_eager_check
    [where ?t0.0 = 2 and fl = float_scalars and A = "\<lparr>ncols = 1, rows = [[1]]\<rparr>" and eps = 1
       and solve = cramer_solve and c = "[1, 2, 3]" and b = "[]" and ?x_0.0 = "[5, 5]" and mu = 2]
  by (simp add: nrows_def float_scalars_def binary64_values)

text \<open>
  C5 as stated fails: for \<open>A = [[1]]\<close>, \<open>b = [0]\<close> the point \<open>x_0 = [1]\<close> is not strictly
  feasible (\<open>b - A x_0 = -1\<close>), yet the call returns normally and reports nothing.
\<close>

theorem eager_check_counterexample:
  "\<not> barrier_in_domain \<lparr>ncols = 1, rows = [[1]]\<rparr> [0] [1] \<and>
   barrier_method float_scalars cramer_solve [1] \<lparr>ncols = 1, rows = [[1]]\<rparr> [0] [1] 1 2 2 False
     = Some (Inr ([1], [[1]], []))"
  unfolding barrier_method_def
  by (subst barrier_loop.simps)
     (simp add: loop_test_def nrows_def barrier_in_domain_def vec_sub_def mat_vec_def dot_def
        float_scalars_def binary64_values)

text \<open>
  C6 (as the code has it). \<open>newtons_method\<close> makes no test of its own on the Hessian.
  When the solver raises at the current point (as \<^verbatim>\<open>np.linalg.solve\<close> does, with
  \<^verbatim>\<open>LinAlgError\<close>, on a singular matrix), the error is not caught: the loop and the call of
  \<open>newtons_method\<close> raise it.
\<close>

theorem newton_solver_error_surfaces:
  assumes "solve (ddf x) (df x) = Inl e"
  shows "newton_loop solve f in_domain_of_f df ddf eps x steps = Some (Inl e) \<and>
     newtons_method solve f in_domain_of_f df ddf x eps_opt = Some (Inl e)"
  using assms by (simp add: newtons_method_def newton_loop_raise)

theorem newton_solver_error_surfaces_witness:
  "cramer_solve (linear_ddf [0]) (linear_df [0]) = Inl LinAlgError \<and>
   newtons_method cramer_solve linear_f everywhere linear_df linear_ddf [0] None
     = Some (Inl LinAlgError)"
proof -
  have s: "cramer_solve (linear_ddf [0]) (linear_df [0]) = Inl LinAlgError"
    by (simp add: cramer_solve_def linear_ddf_def linear_df_def nrows_def)
  from newton_solver_error_surfaces[where solve = cramer_solve and ddf = linear_ddf
      and df = linear_df and x = "[0]", OF s] s
  show ?thesis by blast
qed

text \<open>
  C6 as stated fails: the Hessian \<open>[[-1]]\<close> of the concave objective \<open>v - v\<^sup>2/2\<close> is not
  positive definite (\<open>[1] \<cdot> H [1] = -1 < 0\<close>), the solver returns \<open>[-1]\<close>, the decrement is
  \<open>-1\<close>, and \<open>newtons_method\<close> returns the start point without any error.
\<close>

theorem indefinite_hessian_counterexample:
  "dot [1] (mat_vec (concave_ddf [0]) [1]) < 0 \<and>
   newtons_method cramer_solve concave_f everywhere concave_df concave_ddf [0] None
     = Some (Inr ([0], [[0]]))"
proof -
  have s: "cramer_solve (concave_ddf [0]) (concave_df [0]) = Inr [- 1]"
    by (simp add: cramer_solve_def concave_ddf_def concave_df_def nrows_def)
  have "dot (vec_neg (concave_df [0])) (vec_neg [- 1]) / 2 \<le> 1 / 10 ^ 4"
    by (simp add: concave_df_def vec_neg_def dot_def)
  from newton_loop_stop[where solve = cramer_solve and ddf = concave_ddf and df = concave_df
      and xk = "[0]" and y = "[- 1]", OF s this]
  show ?thesis
    by (simp add: newtons_method_def concave_ddf_def mat_vec_def dot_def)
qed




text \<open>
  C8 (as the code has it). Let \<open>x\<close> be in the domain, \<open>0 \<le> beta \<le> 1\<close>, and let the domain
  be convex along the search ray (with \<open>x + t * dx\<close> it contains \<open>x + s * dx\<close> for every
  \<open>0 \<le> s \<le> t\<close>). When the line search returns, every point at which it has called \<open>f\<close> is
  in the domain; the accepted point \<open>x + t * dx\<close> and \<open>x\<close> are among them.
\<close>

theorem line_search_calls_in_domain:
  assumes "in_domain_of_f x" and "0 \<le> beta" and "beta \<le> 1"
    and "\<forall>s t. 0 \<le> s \<longrightarrow> s \<le> t \<longrightarrow> in_domain_of_f (vec_add x (scale t dx)) \<longrightarrow>
           in_domain_of_f (vec_add x (scale s dx))"
    and "backtracking_line_search f in_domain_of_f df x dx alpha beta = Some (t, calls)"
  shows "(\<forall>p \<in> set calls. in_domain_of_f p) \<and> vec_add x (scale t dx) \<in> set calls \<and> x \<in> set calls"
proof -
  from line_search_result[OF assms(5,2,3)] obtain t1 where
    t1: "in_domain_of_f (vec_add x (scale t1 dx))"
    and calls: "\<forall>p \<in> set calls. p = x \<or> (\<exists>s. 0 \<le> s \<and> s \<le> t1 \<and> p = vec_add x (scale s dx))"
    by blast
  have "in_domain_of_f p" if "p \<in> set calls" for p
  proof -
    from calls that have "p = x \<or> (\<exists>s. 0 \<le> s \<and> s \<le> t1 \<and> p = vec_add x (scale s dx))" ..
    then show ?thesis
    proof
      assume "p = x"
      then show ?thesis using assms(1) by simp
    next
      assume "\<exists>s. 0 \<le> s \<and> s \<le> t1 \<and> p = vec_add x (scale s dx)"
      then obtain s where s: "0 \<le> s" "s \<le> t1" "p = vec_add x (scale s dx)" by blast
      from assms(4)[rule_format, OF s(1) s(2) t1] s(3) show ?thesis by simp
    qed
  qed
  moreover from assms(5) obtain t0 where
    "armijo_loop f df x dx alpha beta t0 [] = Some (t, calls)"
    by (auto simp: backtracking_line_search_def split: option.splits)
  from armijo_loop_calls[OF this]
  have "vec_add x (scale t dx) \<in> set calls \<and> x \<in> set calls" by simp
  ultimately show ?thesis by blast
qed

theorem line_search_calls_in_domain_witness:
  "below_one [0] \<and> (0::real) \<le> 8 / 10 \<and> (8 / 10 :: real) \<le> 1 \<and>
   backtracking_line_search gap_f below_one gap_df [0] [2] (1 / 10) (8 / 10)
     = Some (256 / 625, [[512 / 625], [0]]) \<and>
   below_one [512 / 625]"
proof -
  have seg: "\<forall>s t. 0 \<le> s \<longrightarrow> s \<le> t \<longrightarrow> below_one (vec_add [0] (scale t [2])) \<longrightarrow>
           below_one (vec_add [0] (scale s [2]))"
    by (simp add: below_one_def vec_add_def scale_def)
  have x: "below_one [0]" by (simp add: below_one_def)
  have b: "(0::real) \<le> 8 / 10" "(8 / 10 :: real) \<le> 1" by simp_all
  from line_search_calls_in_domain[OF x b seg below_one_search]
  have "\<forall>p \<in> set [[512 / 625], [0 :: real]]. below_one p" by blast
  then have c: "below_one [512 / 625]" by simp
  show ?thesis by (intro conjI x b below_one_search c)
qed

text \<open>
  C8 as stated fails on a domain that is not convex: for the domain \<open>v \<le> 0 \<or> v \<ge> 1\<close>,
  \<open>x = 0\<close> and the direction \<open>1\<close>, the first loop accepts \<open>t = 1\<close> (the point \<open>1\<close> is in the
  domain), the Armijo test fails there, and the second loop calls \<open>f\<close> at \<open>0.8\<close>, outside the
  domain. The search returns \<open>0.8\<close>.
\<close>

theorem line_search_domain_counterexample:
  "gap_domain [0] \<and>
   backtracking_line_search gap_f gap_domain gap_df [0] [1] (1 / 10) (8 / 10)
     = Some (8 / 10, [[1], [0], [8 / 10], [0]]) \<and>
   \<not> gap_domain [8 / 10]"
proof -
  have "gap_domain (vec_add [0] (scale 1 [1]))"
    by (simp add: gap_domain_def vec_add_def scale_def)
  then have d: "domain_loop gap_domain [0] [1] (8 / 10) 1 = Some 1"
    by (rule domain_loop_accept)
  have c1: "gap_f (vec_add [0] (scale 1 [1])) > gap_f [0] + (1 / 10) * 1 * dot (gap_df [0]) [1]"
    by (simp add: gap_f_def gap_df_def vec_add_def scale_def dot_def)
  have c2: "\<not> gap_f (vec_add [0] (scale (1 * (8 / 10)) [1]))
       > gap_f [0] + (1 / 10) * (1 * (8 / 10)) * dot (gap_df [0]) [1]"
    by (simp add: gap_f_def gap_df_def vec_add_def scale_def dot_def power2_eq_square)
  have a: "armijo_loop gap_f gap_df [0] [1] (1 / 10) (8 / 10) 1 []
     = Some (1 * (8 / 10), ([] @ [vec_add [0] (scale 1 [1]), [0]]) @
          [vec_add [0] (scale (1 * (8 / 10)) [1]), [0]])"
    using armijo_loop_shrink[where f = gap_f and df = gap_df and beta = "8 / 10" and calls = "[]", OF c1]
        armijo_loop_accept[where f = gap_f and df = gap_df and beta = "8 / 10"
           and calls = "[] @ [vec_add [0] (scale 1 [1]), [0]]", OF c2]
    by (rule trans)
  have "backtracking_line_search gap_f gap_domain gap_df [0] [1] (1 / 10) (8 / 10)
     = Some (1 * (8 / 10), ([] @ [vec_add [0] (scale 1 [1]), [0]]) @
          [vec_add [0] (scale (1 * (8 / 10)) [1]), [0]])"
    unfolding backtracking_line_search_def d option.case by (rule a)
  also have "\<dots> = Some (8 / 10, [[1], [0], [8 / 10], [0]])"
    by (simp add: vec_add_def scale_def)
  finally show ?thesis by (simp add: gap_domain_def)
qed

text \<open>
  C9 (as the code has it). With \<open>phase_one\<close> set, the loop test is \<open>x[-1] > 0\<close>: at a point
  whose last coordinate is \<open>\<le> 0\<close> (zero included) the loop stops and returns; at a point
  whose last coordinate is \<open>> 0\<close> it performs a barrier stage and tests again. So a run
  that returns, returns a point whose last coordinate is \<open>\<le> 0\<close>.
\<close>

theorem phase_one_stopping_rule:
  assumes "x \<noteq> []"
  shows "(last x \<le> 0 \<longrightarrow>
        barrier_loop fl solve c A b eps mu True (t, x, steps, newt_steps)
          = Some (Inr (x, steps, newt_steps))) \<and>
     (0 < last x \<longrightarrow>
        barrier_loop fl solve c A b eps mu True (t, x, steps, newt_steps)
          = (case barrier_stage fl solve c A b mu (t, x, steps, newt_steps) of
               None \<Rightarrow> None
             | Some (Inl e) \<Rightarrow> Some (Inl e)
             | Some (Inr s') \<Rightarrow> barrier_loop fl solve c A b eps mu True s')) \<and>
     (\<forall>r. barrier_method fl solve c A b x eps mu t True = Some (Inr r) \<longrightarrow> last (fst r) \<le> 0)"
proof (intro conjI impI allI)
  assume "last x \<le> 0"
  then show "barrier_loop fl solve c A b eps mu True (t, x, steps, newt_steps)
          = Some (Inr (x, steps, newt_steps))"
    using assms by (subst barrier_loop.simps) (simp add: loop_test_True)
next
  assume "0 < last x"
  then show "barrier_loop fl solve c A b eps mu True (t, x, steps, newt_steps)
          = (case barrier_stage fl solve c A b mu (t, x, steps, newt_steps) of
               None \<Rightarrow> None
             | Some (Inl e) \<Rightarrow> Some (Inl e)
             | Some (Inr s') \<Rightarrow> barrier_loop fl solve c A b eps mu True s')"
    using assms by (subst barrier_loop.simps) (simp add: loop_test_True)
next
  fix r
  assume "barrier_method fl solve c A b x eps mu t True = Some (Inr r)"
  then have "barrier_loop fl solve c A b eps mu True (t, x, [x], []) = Some (Inr r)"
    by (simp add: barrier_method_def)
  from barrier_loop_phase_one_exit[OF this] show "last (fst r) \<le> 0" by simp
qed

theorem phase_one_stopping_rule_witness:
  "[- 1 :: real] \<noteq> [] \<and> last [- 1 :: real] \<le> 0 \<and>
   barrier_loop float_scalars cramer_solve [1] interval_A [1, 1] 1 2 True (1, [- 1], [[- 1]], [])
     = Some (Inr ([- 1], [[- 1]], []))"
proof -
  have h: "[- 1 :: real] \<noteq> []" by simp
  have l: "last [- 1 :: real] \<le> 0" by simp
  from phase_one_stopping_rule[OF h, THEN conjunct1, rule_format, OF l]
  show ?thesis using h l by blast
qed

text \<open>
  C9 as stated fails at a last coordinate equal to zero: the loop stops although the
  coordinate is not strictly below zero.
\<close>

theorem phase_one_stop_counterexample:
  "barrier_method float_scalars cramer_solve [1] interval_A [1, 1] [0] 1 2 1 True = Some (Inr ([0], [[0]], [])) \<and>
   \<not> last [0 :: real] < 0"
  unfolding barrier_method_def
  by (subst barrier_loop.simps) (simp add: loop_test_def)

text \<open>
  C10. A run of \<open>barrier_method\<close> on a store \<open>h\<close> that returns, returns a store \<open>h'\<close> in
  which every array of \<open>h\<close> (the caller's \<open>c\<close>, \<open>A\<close>, \<open>b\<close> and \<open>x_0\<close> among them) is unchanged.
  The returned iterate is the copy of \<open>x_0\<close> made at entry, the first array after those of
  \<open>h\<close>. Every entry of the outer trace and of the inner traces is an array of its own,
  allocated after that copy: no two entries are the same array, and none is the iterate
  or an array of the caller, so the in-place updates of the iterate do not reach them.
  Read in the final store, the returned point and the traces are those of the run on
  values: every trace entry holds the value the iterate had when the entry was appended.
\<close>

theorem inputs_unchanged_snapshots_independent:
  assumes "ca < length h" and "Aa < length h" and "ba < length h" and "x0a < length h"
    and run: "barrier_method_h fl solve h ca Aa ba x0a eps mu t0 phase_one
        = Some (Inr (h', xr, steps, newt_steps))"
  shows "length h \<le> length h' \<and> (\<forall>a<length h. h' ! a = h ! a) \<and>
     xr = length h \<and> snapshots (Suc (length h)) h' xr (steps @ concat newt_steps) \<and>
     barrier_method fl solve (deref h ca) (mat_of (h ! Aa)) (deref h ba) (deref h x0a)
         eps mu t0 phase_one
       = Some (Inr (view (h', xr, steps, newt_steps)))"
proof -
  let ?h1 = "fst (copy_array h x0a)"
  let ?xa = "length h"
  let ?h2 = "fst (copy_array ?h1 ?xa)"
  let ?s0 = "Suc (length h)"
  have l1: "length ?h1 = Suc (length h)" and l2: "length ?h2 = Suc (Suc (length h))"
    by (simp_all add: copy_array_eq)
  have old: "\<forall>a<length h. ?h2 ! a = h ! a" by (simp add: copy_array_eq nth_append)
  have x: "deref ?h2 ?xa = deref h x0a" "deref ?h2 ?s0 = deref h x0a"
    using assms(4) by (simp_all add: copy_array_eq deref_def nth_append)
  from run have run': "barrier_loop_h fl solve ca Aa ba (nrows (mat_of (h ! Aa))) eps mu phase_one
      (?h2, t0, ?xa, [?s0], []) = Some (Inr (h', xr, steps, newt_steps))"
    by (simp add: barrier_method_h_def copy_array_eq)
  have pre: "ca < length h" "Aa < length h" "ba < length h" "length h \<le> ?xa" "?xa < length ?h2"
    using assms(1-3) l2 by simp_all
  have m: "nrows (mat_of (h ! Aa)) = nrows (mat_of (?h2 ! Aa))" using old assms(2) by simp
  have snap: "snapshots (length h) ?h2 ?xa ([?s0] @ concat [])"
    using l2 by (simp add: snapshots_def)
  note big = barrier_loop_h_result[OF run' pre m snap]
  from big have res1: "xr = ?xa" by (rule conjunct1)
  from big have res2: "unchanged_except ?h2 ?xa h'" by (rule conjunct2[THEN conjunct1])
  from big have res3: "snapshots (length h) h' ?xa (steps @ concat newt_steps)"
    by (rule conjunct2[THEN conjunct2, THEN conjunct2, THEN conjunct1])
  from big have pure: "barrier_loop fl solve (deref ?h2 ca) (mat_of (?h2 ! Aa)) (deref ?h2 ba) eps mu
         phase_one (t0, deref ?h2 ?xa, map (deref ?h2) [?s0], map (map (deref ?h2)) [])
       = Some (Inr (view (h', xr, steps, newt_steps)))"
    by (rule conjunct2[THEN conjunct2, THEN conjunct2, THEN conjunct2])
  have len: "length h \<le> length h'" using res2 l2 by (simp add: unchanged_except_def)
  have frame: "\<forall>a<length h. h' ! a = h ! a"
    using res2 old l2 by (simp add: unchanged_except_def)
  have "snapshots (Suc (length h)) h' xr (steps @ concat newt_steps)"
    unfolding snapshots_def
  proof
    show "\<forall>s \<in> set (steps @ concat newt_steps). Suc (length h) \<le> s \<and> s < length h' \<and> s \<noteq> xr"
    proof
      fix s assume "s \<in> set (steps @ concat newt_steps)"
      with res3 have "length h \<le> s \<and> s < length h' \<and> s \<noteq> length h"
        unfolding snapshots_def by blast
      then show "Suc (length h) \<le> s \<and> s < length h' \<and> s \<noteq> xr" using res1 by simp
    qed
    show "distinct (steps @ concat newt_steps)" using res3 unfolding snapshots_def by blast
  qed
  moreover have "barrier_method fl solve (deref h ca) (mat_of (h ! Aa)) (deref h ba) (deref h x0a)
         eps mu t0 phase_one = Some (Inr (view (h', xr, steps, newt_steps)))"
    using pure old assms(1-3) by (simp add: barrier_method_def deref_def x[unfolded deref_def])
  ultimately show ?thesis using len frame res1 by simp
qed

theorem inputs_unchanged_snapshots_independent_witness:
  "(0::nat) < length halfline_store \<and> (1::nat) < length halfline_store \<and>
   (2::nat) < length halfline_store \<and> (3::nat) < length halfline_store \<and>
   barrier_method_h float_scalars cramer_solve halfline_store 0 1 2 3 1 2 1 False
     = Some (Inr (halfline_store_final, 4, [5, 8], [[6, 7]])) \<and>
   halfline_store_final ! 0 = halfline_store ! 0 \<and>
   halfline_store_final ! 1 = halfline_store ! 1 \<and>
   halfline_store_final ! 2 = halfline_store ! 2 \<and>
   halfline_store_final ! 3 = halfline_store ! 3 \<and>
   snapshots (Suc (length halfline_store)) halfline_store_final 4 ([5, 8] @ concat [[6, 7]]) \<and>
   barrier_method float_scalars cramer_solve (deref halfline_store 0) (mat_of (halfline_store ! 1))
       (deref halfline_store 2) (deref halfline_store 3) 1 2 1 False
     = Some (Inr (view (halfline_store_final, 4, [5, 8], [[6, 7]]))) \<and>
   view (halfline_store_final, 4, [5, 8], [[6, 7]])
     = ([- 39471 / 40000], [[- 177 / 200], [- 39471 / 40000]],
        [[[- 177 / 200], [- 39471 / 40000]]])"
proof -
  have a: "(0::nat) < length halfline_store" "(1::nat) < length halfline_store"
    "(2::nat) < length halfline_store" "(3::nat) < length halfline_store"
    by (simp_all add: halfline_store_def)
  note th = inputs_unchanged_snapshots_independent[OF a halfline_store_run]
  from th have frame: "\<forall>a<length halfline_store. halfline_store_final ! a = halfline_store ! a"
    by (rule conjunct2[THEN conjunct1])
  from th have snap: "snapshots (Suc (length halfline_store)) halfline_store_final 4
      ([5, 8] @ concat [[6, 7]])"
    by (rule conjunct2[THEN conjunct2, THEN conjunct2, THEN conjunct1])
  from th have pure: "barrier_method float_scalars cramer_solve (deref halfline_store 0)
       (mat_of (halfline_store ! 1)) (deref halfline_store 2) (deref halfline_store 3) 1 2 1 False
     = Some (Inr (view (halfline_store_final, 4, [5, 8], [[6, 7]])))"
    by (rule conjunct2[THEN conjunct2, THEN conjunct2, THEN conjunct2])
  have v: "view (halfline_store_final, 4, [5, 8], [[6, 7]])
     = ([- 39471 / 40000], [[- 177 / 200], [- 39471 / 40000]],
        [[[- 177 / 200], [- 39471 / 40000]]])"
    by (simp add: view_def deref_def halfline_store_final_def)
  show ?thesis
    by (intro conjI a halfline_store_run frame[rule_format, OF a(1)] frame[rule_format, OF a(2)]
        frame[rule_format, OF a(3)] frame[rule_format, OF a(4)] snap pure v)
qed

end
